theory Spec2Isabelle
  imports Complex_Main "HOL-Library.Multiset"
begin

section \<open>The training loop of \<open>procgenac/modelling/training.py\<close>\<close>

text \<open>
  The file drives four collaborators that it does not define: the policy model, the
  optimizer, the vectorised environment and the trajectory store. They are taken as
  parameters: every collaborator call is a transformer of one opaque world state \<open>'w\<close>
  (model parameters, optimizer moments, simulator state, buffers, random generator), and
  every opaque Python value (observations, actions, log-probabilities, values, done
  masks, infos, batches, losses) has the type \<open>'x\<close>. Rewards are tensors with one
  entry per environment instance. Collaborator calls are assumed to return; what
  \<open>training.py\<close> itself can raise is a value of \<open>error\<close>. Printing is left out.
\<close>

type_synonym tensor = "real list"

datatype error = ZeroDivisionError | RuntimeError | AttributeError

text \<open>One constructor per call site of a collaborator in \<open>training.py\<close>.\<close>

datatype 'x call =
    ModelTo
  | AdamInit
  | StorageInit int int
  | EnvReset
  | EvalEnvReset
  | ModelEval
  | ModelTrain
  | ModelAct 'x
  | EnvStep 'x
  | StorageStore 'x 'x tensor 'x 'x 'x 'x
  | GetReward
  | StoreLast 'x 'x
  | ComputeReturnAdvantage
  | GetGenerator int
  | Forward 'x
  | Criterion 'x 'x 'x
  | Backward 'x
  | ClipGradNorm
  | OptimizerStep
  | ZeroGrad
  | EvalModelEval
  | EvalModelAct 'x
  | EvalEnvStep 'x
  | Render
  | SaveVideo "'x list"

record ('w, 'x) collab =
  model_to :: "'w \<Rightarrow> 'w"
  model_eval :: "'w \<Rightarrow> 'w"
  model_train :: "'w \<Rightarrow> 'w"
  model_act :: "'x \<Rightarrow> 'w \<Rightarrow> ('x \<times> 'x \<times> 'x) \<times> 'w"
  model_forward :: "'x \<Rightarrow> 'w \<Rightarrow> ('x \<times> 'x) \<times> 'w"
  model_criterion :: "'x \<Rightarrow> 'x \<Rightarrow> 'x \<Rightarrow> 'w \<Rightarrow> 'x \<times> 'w"
  loss_backward :: "'x \<Rightarrow> 'w \<Rightarrow> 'w"
  clip_grad_norm :: "'w \<Rightarrow> 'w"
  adam_init :: "'w \<Rightarrow> 'w"
  optimizer_step :: "'w \<Rightarrow> 'w"
  optimizer_zero_grad :: "'w \<Rightarrow> 'w"
  storage_init :: "int \<Rightarrow> int \<Rightarrow> 'w \<Rightarrow> 'w"
  storage_store :: "'x \<Rightarrow> 'x \<Rightarrow> tensor \<Rightarrow> 'x \<Rightarrow> 'x \<Rightarrow> 'x \<Rightarrow> 'x \<Rightarrow> 'w \<Rightarrow> 'w"
  storage_store_last :: "'x \<Rightarrow> 'x \<Rightarrow> 'w \<Rightarrow> 'w"
  storage_compute_return_advantage :: "'w \<Rightarrow> 'w"
  storage_get_generator :: "int \<Rightarrow> 'w \<Rightarrow> 'x list \<times> 'w"
  storage_get_reward :: "'w \<Rightarrow> 'x \<times> 'w"
  b_obs :: "'x \<Rightarrow> 'x"
  save_video :: "'x list \<Rightarrow> 'w \<Rightarrow> 'w"

record ('w, 'x) env =
  num_envs :: int
  env_reset :: "'w \<Rightarrow> 'x \<times> 'w"
  env_step :: "'x \<Rightarrow> 'w \<Rightarrow> ('x \<times> tensor \<times> 'x \<times> 'x) \<times> 'w"
  env_render :: "'w \<Rightarrow> 'x \<times> 'w"

text \<open>The keyword arguments of \<open>train_model\<close> that the loop reads.\<close>

record hyper =
  num_epochs :: int
  batch_size :: int
  num_steps :: int
  total_steps :: int
  get_test_error :: bool
  verbose :: bool

subsection \<open>\<open>torch.stack\<close>\<close>

text \<open>
  \<open>torch.stack\<close> raises on an empty list of tensors. Its result is kept as the list of
  the stacked tensors, which all have the shape their collaborator produces.
\<close>

definition torch_stack :: "'a list \<Rightarrow> error + 'a list" where
  "torch_stack ts = (if ts = [] then Inl RuntimeError else Inr ts)"

text \<open>\<open>.sum(0)\<close> of a stack of one-dimensional tensors: the entrywise sum of its rows.\<close>

definition tensor_add :: "tensor \<Rightarrow> tensor \<Rightarrow> tensor" where
  "tensor_add a b = map2 (+) a b"

definition sum0 :: "tensor list \<Rightarrow> tensor" where
  "sum0 ts = foldl tensor_add (hd ts) (tl ts)"

subsection \<open>\<open>evaluate_model\<close>\<close>

record ('w, 'x) estate =
  e_world :: 'w
  e_obs :: 'x
  e_total_reward :: "tensor list"
  e_frames :: "'x list"
  e_trace :: "'x call list"

text \<open>The body of the loop of \<open>evaluate_model\<close>, lines 208 to 218.\<close>

definition eval_step :: "('w, 'x) collab \<Rightarrow> ('w, 'x) env \<Rightarrow> bool \<Rightarrow> ('w, 'x) estate \<Rightarrow> ('w, 'x) estate" where
  "eval_step c ee video s =
     (let ((action, log_prob, val), w1) = model_act c (e_obs s) (e_world s);
          ((ob, reward, dones, info), w2) = env_step ee action w1;
          s1 = s\<lparr>e_world := w2, e_obs := ob,
                 e_total_reward := e_total_reward s @ [reward],
                 e_trace := e_trace s @ [EvalModelAct (e_obs s), EvalEnvStep action]\<rparr>
      in if video then
           (let (frame, w3) = env_render ee (e_world s1)
            in s1\<lparr>e_world := w3, e_frames := e_frames s1 @ [frame],
                   e_trace := e_trace s1 @ [Render]\<rparr>)
         else s1)"

text \<open>
  The loop runs \<open>range(num_steps)\<close>, which is empty for \<open>num_steps \<le> 0\<close>. The state
  after the loop, and after \<open>save_video\<close> when \<open>video\<close> is set:
\<close>

definition eval_run :: "('w, 'x) collab \<Rightarrow> ('w, 'x) env \<Rightarrow> 'x \<Rightarrow> int \<Rightarrow> bool \<Rightarrow> 'w \<Rightarrow> ('w, 'x) estate" where
  "eval_run c ee ob n video w =
     (let s0 = \<lparr>e_world = model_eval c w, e_obs = ob, e_total_reward = [], e_frames = [],
                 e_trace = [EvalModelEval]\<rparr>;
          s1 = (eval_step c ee video ^^ nat n) s0
      in if video then
           s1\<lparr>e_world := save_video c (e_frames s1) (e_world s1),
               e_trace := e_trace s1 @ [SaveVideo (e_frames s1)]\<rparr>
         else s1)"

text \<open>
  \<open>evaluate_model\<close> returns the pair of line 225; the model returns with it the world
  after the call and the calls made.
\<close>

definition evaluate_model ::
  "('w, 'x) collab \<Rightarrow> ('w, 'x) env \<Rightarrow> 'x \<Rightarrow> int \<Rightarrow> bool \<Rightarrow> 'w
     \<Rightarrow> error + ((tensor \<times> 'x) \<times> 'w \<times> 'x call list)" where
  "evaluate_model c ee ob n video w =
     (let s = eval_run c ee ob n video w
      in case torch_stack (e_total_reward s) of
           Inl err \<Rightarrow> Inl err
         | Inr stacked \<Rightarrow> Inr ((sum0 stacked, e_obs s), e_world s, e_trace s))"

subsection \<open>\<open>train_model\<close>\<close>

record ('w, 'x) tstate =
  world :: 'w
  obs :: 'x
  eval_obs :: 'x
  step :: int
  n_updates :: int
  steps :: "int list"
  train_rewards :: "'x list"
  test_rewards :: "tensor list"
  trace :: "'x call list"

text \<open>Line 123. Python's \<open>//\<close> floors, as \<open>div\<close> on \<open>int\<close> does, and raises on 0.\<close>

definition update_ite :: "int \<Rightarrow> int \<Rightarrow> int \<Rightarrow> error + int" where
  "update_ite tot nenvs nsteps =
     (if nenvs * nsteps * 100 = 0 then Inl ZeroDivisionError
      else Inr (tot div (nenvs * nsteps * 100) + 1))"

text \<open>The body of the collection loop, lines 130 to 139.\<close>

definition collect_step :: "('w, 'x) collab \<Rightarrow> ('w, 'x) env \<Rightarrow> ('w, 'x) tstate \<Rightarrow> ('w, 'x) tstate" where
  "collect_step c e s =
     (let ((action, log_prob, val), w1) = model_act c (obs s) (world s);
          ((next_obs, reward, dones, info), w2) = env_step e action w1;
          w3 = storage_store c (obs s) action reward dones info log_prob val w2
      in s\<lparr>world := w3, obs := next_obs,
            trace := trace s @ [ModelAct (obs s), EnvStep action,
                       StorageStore (obs s) action reward dones info log_prob val]\<rparr>)"

text \<open>
  Lines 143 to 149: the step counter and the mean reward of the window are recorded.
  With \<open>verbose\<close> the store is asked for the reward a second time, for printing.
\<close>

definition record_stats :: "('w, 'x) collab \<Rightarrow> hyper \<Rightarrow> ('w, 'x) tstate \<Rightarrow> ('w, 'x) tstate" where
  "record_stats c h s =
     (let (r, w1) = storage_get_reward c (world s);
          s1 = s\<lparr>world := w1, steps := steps s @ [step s],
                 train_rewards := train_rewards s @ [r], trace := trace s @ [GetReward]\<rparr>
      in if verbose h then
           s1\<lparr>world := snd (storage_get_reward c (world s1)),
               trace := trace s1 @ [GetReward]\<rparr>
         else s1)"

text \<open>
  Lines 142 to 154. \<open>u\<close> is \<open>update_ite\<close>; Python's \<open>%\<close> raises on 0 and otherwise
  agrees with \<open>mod\<close> on \<open>int\<close>.
\<close>

definition update_stats ::
  "('w, 'x) collab \<Rightarrow> ('w, 'x) env \<Rightarrow> hyper \<Rightarrow> int \<Rightarrow> ('w, 'x) tstate \<Rightarrow> error + ('w, 'x) tstate" where
  "update_stats c ee h u s =
     (if u = 0 then Inl ZeroDivisionError
      else if n_updates s mod u = 0 then
        (let s2 = record_stats c h s
         in if get_test_error h then
              (case evaluate_model c ee (eval_obs s2) (num_steps h) False (world s2) of
                 Inl err \<Rightarrow> Inl err
               | Inr ((test_rew, eo), w3, tr) \<Rightarrow>
                   Inr (s2\<lparr>world := w3, eval_obs := eo,
                           test_rewards := test_rewards s2 @ [test_rew],
                           trace := trace s2 @ tr\<rparr>))
            else Inr s2)
      else Inr s)"

text \<open>One minibatch, lines 173 to 187.\<close>

definition minibatch_update :: "('w, 'x) collab \<Rightarrow> 'x \<Rightarrow> ('w, 'x) tstate \<Rightarrow> ('w, 'x) tstate" where
  "minibatch_update c batch s =
     (let ((policy, val), w1) = model_forward c (b_obs c batch) (world s);
          (loss, w2) = model_criterion c batch policy val w1;
          w3 = loss_backward c loss w2;
          w4 = clip_grad_norm c w3;
          w5 = optimizer_step c w4;
          w6 = optimizer_zero_grad c w5
      in s\<lparr>world := w6,
            trace := trace s @ [Forward (b_obs c batch), Criterion batch policy val,
                       Backward loss, ClipGradNorm, OptimizerStep, ZeroGrad]\<rparr>)"

text \<open>One epoch, lines 170 to 187: a new generator, then every batch it yields.\<close>

definition epoch :: "('w, 'x) collab \<Rightarrow> hyper \<Rightarrow> ('w, 'x) tstate \<Rightarrow> ('w, 'x) tstate" where
  "epoch c h s =
     (let (generator, w1) = storage_get_generator c (batch_size h) (world s);
          s1 = s\<lparr>world := w1, trace := trace s @ [GetGenerator (batch_size h)]\<rparr>
      in fold (minibatch_update c) generator s1)"

text \<open>Lines 158 to 163: the bootstrap entry, then returns and advantages.\<close>

definition bootstrap :: "('w, 'x) collab \<Rightarrow> ('w, 'x) tstate \<Rightarrow> ('w, 'x) tstate" where
  "bootstrap c s =
     (let ((action, log_prob, val), w1) = model_act c (obs s) (world s);
          w2 = storage_store_last c (obs s) val w1;
          w3 = storage_compute_return_advantage c w2
      in s\<lparr>world := w3,
            trace := trace s @ [ModelAct (obs s), StoreLast (obs s) val, ComputeReturnAdvantage]\<rparr>)"

text \<open>Lines 166 to 187: the policy update.\<close>

definition optimize :: "('w, 'x) collab \<Rightarrow> hyper \<Rightarrow> ('w, 'x) tstate \<Rightarrow> ('w, 'x) tstate" where
  "optimize c h s =
     (epoch c h ^^ nat (num_epochs h))
        (s\<lparr>world := model_train c (world s), trace := trace s @ [ModelTrain]\<rparr>)"

text \<open>The rollout collector of one iteration, lines 127 to 139.\<close>

definition collect :: "('w, 'x) collab \<Rightarrow> ('w, 'x) env \<Rightarrow> hyper \<Rightarrow> ('w, 'x) tstate \<Rightarrow> ('w, 'x) tstate" where
  "collect c e h s =
     (collect_step c e ^^ nat (num_steps h))
        (s\<lparr>world := model_eval c (world s), trace := trace s @ [ModelEval]\<rparr>)"

text \<open>The body of the \<open>while\<close> loop, lines 126 to 190.\<close>

definition iteration ::
  "('w, 'x) collab \<Rightarrow> ('w, 'x) env \<Rightarrow> ('w, 'x) env \<Rightarrow> hyper \<Rightarrow> int \<Rightarrow> ('w, 'x) tstate
     \<Rightarrow> error + ('w, 'x) tstate" where
  "iteration c e ee h u s =
     (case update_stats c ee h u (collect c e h s) of
        Inl err \<Rightarrow> Inl err
      | Inr s1 \<Rightarrow>
          (let s2 = s1\<lparr>step := step s1 + num_envs e * num_steps h\<rparr>;
               s3 = optimize c h (bootstrap c s2)
           in Inr (s3\<lparr>n_updates := n_updates s3 + 1\<rparr>)))"

text \<open>
  The \<open>while\<close> loop of line 124. It may run forever, so its result is an option:
  \<open>None\<close> is a loop that does not return.
\<close>

partial_function (option) train_loop ::
  "('w, 'x) collab \<Rightarrow> ('w, 'x) env \<Rightarrow> ('w, 'x) env \<Rightarrow> hyper \<Rightarrow> int \<Rightarrow> ('w, 'x) tstate
     \<Rightarrow> (error + ('w, 'x) tstate) option" where
  "train_loop c e ee h u s =
     (if step s < total_steps h then
        (case iteration c e ee h u s of
           Inl err \<Rightarrow> Some (Inl err)
         | Inr s' \<Rightarrow> train_loop c e ee h u s')
      else Some (Inr s))"

text \<open>
  Lines 105 to 123: the state in which the loop starts. \<open>eval_env\<close> defaults to
  \<open>None\<close>, on which \<open>eval_env.reset()\<close> raises.
\<close>

definition train_init ::
  "('w, 'x) collab \<Rightarrow> ('w, 'x) env \<Rightarrow> ('w, 'x) env option \<Rightarrow> hyper \<Rightarrow> 'w
     \<Rightarrow> error + (int \<times> ('w, 'x) env \<times> ('w, 'x) tstate)" where
  "train_init c e eeo h w =
     (let w1 = adam_init c (model_to c w);
          w2 = storage_init c (num_steps h) (num_envs e) w1;
          (ob, w3) = env_reset e w2
      in case eeo of
           None \<Rightarrow> Inl AttributeError
         | Some ee \<Rightarrow>
             (let (eo, w4) = env_reset ee w3
              in case update_ite (total_steps h) (num_envs e) (num_steps h) of
                   Inl err \<Rightarrow> Inl err
                 | Inr u \<Rightarrow>
                     Inr (u, ee, \<lparr>world = w4, obs = ob, eval_obs = eo, step = 0, n_updates = 0,
                              steps = [], train_rewards = [], test_rewards = [],
                              trace = [ModelTo, AdamInit,
                                       StorageInit (num_steps h) (num_envs e),
                                       EnvReset, EvalEnvReset]\<rparr>)))"

text \<open>Lines 192 to 197: what \<open>train_model\<close> returns from the state after the loop.\<close>

definition train_result ::
  "hyper \<Rightarrow> ('w, 'x) tstate \<Rightarrow> error + (int list \<times> 'x list \<times> tensor list option)" where
  "train_result h s =
     (if get_test_error h then
        (case torch_stack (train_rewards s) of
           Inl err \<Rightarrow> Inl err
         | Inr tr \<Rightarrow>
             (case torch_stack (test_rewards s) of
                Inl err \<Rightarrow> Inl err
              | Inr te \<Rightarrow> Inr (steps s, tr, Some te)))
      else
        (case torch_stack (train_rewards s) of
           Inl err \<Rightarrow> Inl err
         | Inr tr \<Rightarrow> Inr (steps s, tr, None)))"

text \<open>
  \<open>train_model\<close>: \<open>None\<close> when the loop does not return, an error when a line raises,
  and otherwise the returned \<open>(steps, rewards)\<close> with the state after the loop.
\<close>

definition train_model ::
  "('w, 'x) collab \<Rightarrow> ('w, 'x) env \<Rightarrow> ('w, 'x) env option \<Rightarrow> hyper \<Rightarrow> 'w
     \<Rightarrow> (error + ((int list \<times> 'x list \<times> tensor list option) \<times> ('w, 'x) tstate)) option" where
  "train_model c e eeo h w =
     (case train_init c e eeo h w of
        Inl err \<Rightarrow> Some (Inl err)
      | Inr (u, ee, s0) \<Rightarrow>
          (case train_loop c e ee h u s0 of
             None \<Rightarrow> None
           | Some (Inl err) \<Rightarrow> Some (Inl err)
           | Some (Inr s) \<Rightarrow>
               (case train_result h s of
                  Inl err \<Rightarrow> Some (Inl err)
                | Inr r \<Rightarrow> Some (Inr (r, s)))))"

subsection \<open>Kinds of calls\<close>

text \<open>The calls that the properties below count in a trace.\<close>

fun is_store :: "'x call \<Rightarrow> bool" where
  "is_store (StorageStore ob a r d i l v) = True"
| "is_store _ = False"

fun is_store_last :: "'x call \<Rightarrow> bool" where
  "is_store_last (StoreLast ob v) = True"
| "is_store_last _ = False"

fun is_env_step :: "'x call \<Rightarrow> bool" where
  "is_env_step (EnvStep a) = True"
| "is_env_step _ = False"

fun is_get_generator :: "'x call \<Rightarrow> bool" where
  "is_get_generator (GetGenerator b) = True"
| "is_get_generator _ = False"

section \<open>The trajectory store\<close>

text \<open>
  \<open>training.py\<close> imports the class \<open>Storage\<close> from \<open>procgenac.utils\<close>, which is not
  among the sources. The definitions of this section follow the contract of the
  Trajectory Store in the specification (sections 3, 4.1 and 8). Tensors are indexed
  by time step and then by environment instance; the arithmetic is that of the reals.
\<close>

datatype store_error = CapacityViolation

text \<open>
  Modelled from the spec: the Transition of the data model, one time step across all
  environment instances, as \<open>Storage.store\<close> receives it.
\<close>

record 'x transition =
  t_obs :: 'x
  t_action :: 'x
  t_reward :: tensor
  t_done :: "bool list"
  t_info :: 'x
  t_log_prob :: 'x
  t_value :: tensor

text \<open>
  Modelled from the spec: the state of \<open>Storage\<close>, a fixed-capacity buffer for one
  rollout window with a write position, the trailing bootstrap observation and value
  in the entry \<open>num_steps\<close> of \<open>st_obs\<close> and \<open>st_value\<close>, and the derived tables.
\<close>

record 'x storage =
  st_num_steps :: nat
  st_num_envs :: nat
  st_gamma :: real
  st_lam :: real
  st_pos :: nat
  st_obs :: "'x list"
  st_action :: "'x list"
  st_reward :: "tensor list"
  st_done :: "bool list list"
  st_info :: "'x list"
  st_log_prob :: "'x list"
  st_value :: "tensor list"
  st_returns :: "tensor list"
  st_delta :: "tensor list"
  st_advantage :: "tensor list"

text \<open>
  Modelled from the spec: the constructor of \<open>Storage\<close> (the buffer is allocated once,
  at training start). \<open>z\<close> fills the buffers of opaque values.
\<close>

definition new_storage :: "'x \<Rightarrow> nat \<Rightarrow> nat \<Rightarrow> real \<Rightarrow> real \<Rightarrow> 'x storage" where
  "new_storage z n m g l =
     \<lparr>st_num_steps = n, st_num_envs = m, st_gamma = g, st_lam = l, st_pos = 0,
      st_obs = replicate (Suc n) z, st_action = replicate n z,
      st_reward = replicate n (replicate m 0), st_done = replicate n (replicate m False),
      st_info = replicate n z, st_log_prob = replicate n z,
      st_value = replicate (Suc n) (replicate m 0),
      st_returns = replicate n (replicate m 0), st_delta = replicate n (replicate m 0),
      st_advantage = replicate n (replicate m 0)\<rparr>"

text \<open>
  Modelled from the spec: \<open>Storage.store\<close> writes one time step at the write position
  and advances it, and fails when the window is full (indexing beyond capacity is fatal).
\<close>

definition store :: "'x transition \<Rightarrow> 'x storage \<Rightarrow> store_error + 'x storage" where
  "store tr st =
     (if st_num_steps st \<le> st_pos st then Inl CapacityViolation
      else Inr (st\<lparr>st_obs := (st_obs st)[st_pos st := t_obs tr],
                   st_action := (st_action st)[st_pos st := t_action tr],
                   st_reward := (st_reward st)[st_pos st := t_reward tr],
                   st_done := (st_done st)[st_pos st := t_done tr],
                   st_info := (st_info st)[st_pos st := t_info tr],
                   st_log_prob := (st_log_prob st)[st_pos st := t_log_prob tr],
                   st_value := (st_value st)[st_pos st := t_value tr],
                   st_pos := Suc (st_pos st)\<rparr>))"


text \<open>Modelled from the spec: consecutive calls of \<open>Storage.store\<close>; the first failure is fatal.\<close>

fun store_all :: "'x transition list \<Rightarrow> 'x storage \<Rightarrow> store_error + 'x storage" where
  "store_all [] st = Inr st"
| "store_all (tr # trs) st =
     (case store tr st of Inl err \<Rightarrow> Inl err | Inr st' \<Rightarrow> store_all trs st')"

text \<open>
  Modelled from the spec: \<open>Storage.store_last\<close> records the bootstrap observation and
  value behind the last step of the window.
\<close>

definition store_last :: "'x \<Rightarrow> tensor \<Rightarrow> 'x storage \<Rightarrow> 'x storage" where
  "store_last ob v st =
     st\<lparr>st_obs := (st_obs st)[st_num_steps st := ob],
        st_value := (st_value st)[st_num_steps st := v]\<rparr>"

text \<open>
  Modelled from the spec: filling a rollout window, the calls of \<open>store\<close> and then
  \<open>store_last\<close>.
\<close>

definition fill :: "'x transition list \<Rightarrow> 'x \<Rightarrow> tensor \<Rightarrow> 'x storage \<Rightarrow> store_error + 'x storage" where
  "fill trs ob v st =
     (case store_all trs st of Inl err \<Rightarrow> Inl err | Inr st' \<Rightarrow> Inr (store_last ob v st'))"

text \<open>
  Modelled from the spec: the shape of the buffer, every table has one row per time
  step (the values one more, for the bootstrap entry) and every row one entry per
  environment instance.
\<close>

definition shaped :: "'x storage \<Rightarrow> bool" where
  "shaped st \<longleftrightarrow>
     length (st_reward st) = st_num_steps st
   \<and> (\<forall>r \<in> set (st_reward st). length r = st_num_envs st)
   \<and> length (st_done st) = st_num_steps st
   \<and> (\<forall>d \<in> set (st_done st). length d = st_num_envs st)
   \<and> length (st_value st) = Suc (st_num_steps st)
   \<and> (\<forall>v \<in> set (st_value st). length v = st_num_envs st)
   \<and> length (st_delta st) = st_num_steps st
   \<and> length (st_advantage st) = st_num_steps st"

text \<open>
  Modelled from the spec: a filled window, the buffer after \<open>num_steps\<close> calls of
  \<open>store\<close>, with the write position at the end.
\<close>

definition filled :: "'x storage \<Rightarrow> bool" where
  "filled st \<longleftrightarrow> st_pos st = st_num_steps st \<and> shaped st"

text \<open>Modelled from the spec: the factor \<open>1 - done\<close> of the residual and the advantage.\<close>

definition not_done :: "bool \<Rightarrow> real" where
  "not_done d = (if d then 0 else 1)"

text \<open>
  Modelled from the spec: the residual of step \<open>t\<close> in every environment instance,
  \<open>delta_t = reward_t + gamma * value_{t+1} * (1 - done_t) - value_t\<close>.
\<close>

definition residual :: "'x storage \<Rightarrow> nat \<Rightarrow> tensor" where
  "residual st t =
     map (\<lambda>e. st_reward st ! t ! e
               + st_gamma st * (st_value st ! Suc t ! e) * not_done (st_done st ! t ! e)
               - st_value st ! t ! e)
         [0..<st_num_envs st]"

text \<open>
  Modelled from the spec: the advantage of step \<open>t\<close> from the advantage \<open>adv\<close> of the
  step behind it, \<open>A_t = delta_t + gamma * lam * (1 - done_t) * A_{t+1}\<close>.
\<close>

definition gae_step :: "'x storage \<Rightarrow> nat \<Rightarrow> tensor \<Rightarrow> tensor" where
  "gae_step st t adv =
     map (\<lambda>e. residual st t ! e
               + st_gamma st * st_lam st * not_done (st_done st ! t ! e) * adv ! e)
         [0..<st_num_envs st]"

text \<open>
  Modelled from the spec: the backward recursion from the last step to the first;
  \<open>backward t adv st\<close> has the steps below \<open>t\<close> left to do and carries the advantage
  of step \<open>t\<close>.
\<close>

fun backward :: "nat \<Rightarrow> tensor \<Rightarrow> 'x storage \<Rightarrow> 'x storage" where
  "backward 0 adv st = st"
| "backward (Suc t) adv st =
     (let a = gae_step st t adv
      in backward t a
           (st\<lparr>st_delta := (st_delta st)[t := residual st t],
               st_advantage := (st_advantage st)[t := a]\<rparr>))"

text \<open>
  Modelled from the spec: \<open>Storage.compute_return_advantage\<close>. The recursion is seeded
  from the bootstrap value: it starts behind the last step with no advantage, and the
  residual of the last step reads the bootstrap value as \<open>value_{t+1}\<close>. The return is
  \<open>R_t = A_t + value_t\<close>.
\<close>

definition compute_return_advantage :: "'x storage \<Rightarrow> 'x storage" where
  "compute_return_advantage st =
     (let st1 = backward (st_num_steps st) (replicate (st_num_envs st) 0) st
      in st1\<lparr>st_returns :=
               map (\<lambda>t. map (\<lambda>e. st_advantage st1 ! t ! e + st_value st1 ! t ! e)
                          [0..<st_num_envs st])
                   [0..<st_num_steps st]\<rparr>)"

text \<open>
  Modelled from the spec: the partition of a permutation into batches of \<open>b\<close> indices,
  the last one partial. The specification gives batch sizes from 1 on; there is no
  batch of size 0.
\<close>

fun chunks :: "nat \<Rightarrow> 'a list \<Rightarrow> 'a list list" where
  "chunks b xs = (if b = 0 \<or> xs = [] then [] else take b xs # chunks b (drop b xs))"

text \<open>
  Modelled from the spec: \<open>Storage.get_generator\<close>. The random source is the parameter
  \<open>randperm\<close>, which draws an ordering of \<open>n\<close> indices from the generator state \<open>'g\<close>
  and returns the state after the draw. A minibatch is the list of the flattened
  (time, environment instance) indices it gathers.
\<close>

definition get_generator ::
  "(nat \<Rightarrow> 'g \<Rightarrow> nat list \<times> 'g) \<Rightarrow> nat \<Rightarrow> 'x storage \<Rightarrow> 'g \<Rightarrow> nat list list \<times> 'g" where
  "get_generator randperm b st g =
     (let (perm, g') = randperm (st_num_steps st * st_num_envs st) g
      in (chunks b perm, g'))"

section \<open>Concrete instances\<close>

text \<open>
  The dummy setting of the specification's end-to-end scenario: two environment
  instances, reward 1 in every step, four steps per rollout, a budget of eight steps.
  The world is a counter of optimizer steps.
\<close>

definition demo_collab :: "(nat, nat) collab" where
  "demo_collab =
     \<lparr>model_to = (\<lambda>w. w), model_eval = (\<lambda>w. w), model_train = (\<lambda>w. w),
      model_act = (\<lambda>ob w. ((ob, 0, 0), w)),
      model_forward = (\<lambda>ob w. ((0, 0), w)),
      model_criterion = (\<lambda>b p v w. (0, w)),
      loss_backward = (\<lambda>l w. w), clip_grad_norm = (\<lambda>w. w),
      adam_init = (\<lambda>w. w), optimizer_step = Suc, optimizer_zero_grad = (\<lambda>w. w),
      storage_init = (\<lambda>n m w. w),
      storage_store = (\<lambda>ob a r d i l v w. w),
      storage_store_last = (\<lambda>ob v w. w),
      storage_compute_return_advantage = (\<lambda>w. w),
      storage_get_generator = (\<lambda>b w. ([0, 1], w)),
      storage_get_reward = (\<lambda>w. (4, w)),
      b_obs = (\<lambda>b. b), save_video = (\<lambda>fs w. w)\<rparr>"

definition demo_env :: "(nat, nat) env" where
  "demo_env =
     \<lparr>num_envs = 2, env_reset = (\<lambda>w. (0, w)),
      env_step = (\<lambda>a w. ((Suc a, [1, 1], 0, 0), w)),
      env_render = (\<lambda>w. (0, w))\<rparr>"

definition demo_hyper :: hyper where
  "demo_hyper =
     \<lparr>num_epochs = 1, batch_size = 4, num_steps = 4, total_steps = 8,
      get_test_error = True, verbose = False\<rparr>"

text \<open>The same setting with a budget of one step.\<close>

definition overshoot_hyper :: hyper where
  "overshoot_hyper =
     \<lparr>num_epochs = 1, batch_size = 4, num_steps = 4, total_steps = 1,
      get_test_error = True, verbose = False\<rparr>"

definition demo_state :: "(nat, nat) tstate" where
  "demo_state =
     \<lparr>world = 0, obs = 0, eval_obs = 0, step = 0, n_updates = 0, steps = [],
      train_rewards = [], test_rewards = [], trace = []\<rparr>"

text \<open>
  The instance of the specification's section 8: three steps, one environment
  instance, rewards 1, values 0, the episode ending at step 1, bootstrap value 0.
\<close>

definition example_transition :: "bool \<Rightarrow> unit transition" where
  "example_transition d =
     \<lparr>t_obs = (), t_action = (), t_reward = [1], t_done = [d], t_info = (),
      t_log_prob = (), t_value = [0]\<rparr>"

definition example_window :: "store_error + unit storage" where
  "example_window =
     fill [example_transition False, example_transition True, example_transition False]
          () [0] (new_storage () 3 1 (99 / 100) (95 / 100))"

text \<open>
  A random source for the minibatch generator: the state counts the draws, and every
  draw is the reversed ordering of the indices.
\<close>

definition demo_randperm :: "nat \<Rightarrow> nat \<Rightarrow> nat list \<times> nat" where
  "demo_randperm n g = (rev [0..<n], Suc g)"

section \<open>Properties of the training loop\<close>

subsection \<open>What each phase leaves unchanged\<close>

lemma funpow_keeps: "(\<And>s. g (f s) = g s) \<Longrightarrow> g ((f ^^ n) s) = g s"
  by (induction n) simp_all

lemma collect_step_keeps:
  "step (collect_step c e s) = step s"
  "n_updates (collect_step c e s) = n_updates s"
  "steps (collect_step c e s) = steps s"
  "train_rewards (collect_step c e s) = train_rewards s"
  "test_rewards (collect_step c e s) = test_rewards s"
  "eval_obs (collect_step c e s) = eval_obs s"
  by (simp_all add: collect_step_def Let_def case_prod_beta)

lemma collect_keeps:
  "step (collect c e h s) = step s"
  "n_updates (collect c e h s) = n_updates s"
  "steps (collect c e h s) = steps s"
  "train_rewards (collect c e h s) = train_rewards s"
  "test_rewards (collect c e h s) = test_rewards s"
  "eval_obs (collect c e h s) = eval_obs s"
  by (simp_all add: collect_def funpow_keeps collect_step_keeps)

lemma minibatch_update_keeps:
  "step (minibatch_update c b s) = step s"
  "n_updates (minibatch_update c b s) = n_updates s"
  "steps (minibatch_update c b s) = steps s"
  "train_rewards (minibatch_update c b s) = train_rewards s"
  "test_rewards (minibatch_update c b s) = test_rewards s"
  "obs (minibatch_update c b s) = obs s"
  "eval_obs (minibatch_update c b s) = eval_obs s"
  by (simp_all add: minibatch_update_def Let_def case_prod_beta)

lemma fold_keeps: "(\<And>b s. g (f b s) = g s) \<Longrightarrow> g (fold f bs s) = g s"
  by (induction bs arbitrary: s) simp_all

lemma epoch_keeps:
  "step (epoch c h s) = step s"
  "n_updates (epoch c h s) = n_updates s"
  "steps (epoch c h s) = steps s"
  "train_rewards (epoch c h s) = train_rewards s"
  "test_rewards (epoch c h s) = test_rewards s"
  "obs (epoch c h s) = obs s"
  "eval_obs (epoch c h s) = eval_obs s"
  by (simp_all add: epoch_def Let_def case_prod_beta fold_keeps minibatch_update_keeps)

lemma optimize_keeps:
  "step (optimize c h s) = step s"
  "n_updates (optimize c h s) = n_updates s"
  "steps (optimize c h s) = steps s"
  "train_rewards (optimize c h s) = train_rewards s"
  "test_rewards (optimize c h s) = test_rewards s"
  "obs (optimize c h s) = obs s"
  "eval_obs (optimize c h s) = eval_obs s"
  by (simp_all add: optimize_def funpow_keeps epoch_keeps)

lemma bootstrap_keeps:
  "step (bootstrap c s) = step s"
  "n_updates (bootstrap c s) = n_updates s"
  "steps (bootstrap c s) = steps s"
  "train_rewards (bootstrap c s) = train_rewards s"
  "test_rewards (bootstrap c s) = test_rewards s"
  "obs (bootstrap c s) = obs s"
  "eval_obs (bootstrap c s) = eval_obs s"
  by (simp_all add: bootstrap_def Let_def case_prod_beta)

lemma eval_step_total_reward:
  "length (e_total_reward (eval_step c ee video s)) = Suc (length (e_total_reward s))"
  by (simp add: eval_step_def Let_def case_prod_beta)

lemma eval_loop_total_reward:
  "length (e_total_reward ((eval_step c ee video ^^ n) s)) = n + length (e_total_reward s)"
  by (induction n) (simp_all add: eval_step_total_reward)

lemma eval_run_total_reward:
  "length (e_total_reward (eval_run c ee ob n video w)) = nat n"
  by (simp add: eval_run_def Let_def eval_loop_total_reward)

lemma evaluate_model_returns:
  assumes "1 \<le> n"
  shows "evaluate_model c ee ob n video w =
           Inr ((sum0 (e_total_reward (eval_run c ee ob n video w)),
                 e_obs (eval_run c ee ob n video w)),
                e_world (eval_run c ee ob n video w), e_trace (eval_run c ee ob n video w))"
proof -
  have "length (e_total_reward (eval_run c ee ob n video w)) \<noteq> 0"
    using assms by (simp add: eval_run_total_reward)
  then have "e_total_reward (eval_run c ee ob n video w) \<noteq> []" by simp
  then show ?thesis by (simp add: evaluate_model_def Let_def torch_stack_def)
qed

lemma evaluate_model_raises:
  assumes "n \<le> 0"
  shows "evaluate_model c ee ob n video w = Inl RuntimeError"
proof -
  have "length (e_total_reward (eval_run c ee ob n video w)) = 0"
    using assms by (simp add: eval_run_total_reward)
  then show ?thesis by (simp add: evaluate_model_def Let_def torch_stack_def)
qed

text \<open>What the stats block does to the counters and the lists.\<close>

lemma update_stats_ok:
  assumes "u \<noteq> 0" and "get_test_error h \<longrightarrow> 1 \<le> num_steps h"
  shows "\<exists>s'. update_stats c ee h u s = Inr s' \<and> step s' = step s \<and> n_updates s' = n_updates s
           \<and> obs s' = obs s
           \<and> (if n_updates s mod u = 0
               then steps s' = steps s @ [step s]
                  \<and> length (train_rewards s') = Suc (length (train_rewards s))
                  \<and> length (test_rewards s') =
                      (if get_test_error h then Suc (length (test_rewards s)) else length (test_rewards s))
               else s' = s)"
proof (cases "n_updates s mod u = 0")
  case False
  with assms show ?thesis by (simp add: update_stats_def)
next
  case True
  show ?thesis
  proof (cases "get_test_error h")
    case False
    with True assms show ?thesis
      by (simp add: update_stats_def record_stats_def Let_def case_prod_beta)
  next
    case gte: True
    with assms have "1 \<le> num_steps h" by simp
    note ev = evaluate_model_returns [OF this]
    from True gte assms show ?thesis
      by (simp add: update_stats_def record_stats_def Let_def case_prod_beta ev)
  qed
qed

lemma iteration_ok:
  assumes "u \<noteq> 0" and "get_test_error h \<longrightarrow> 1 \<le> num_steps h"
  shows "\<exists>s'. iteration c e ee h u s = Inr s'
           \<and> step s' = step s + num_envs e * num_steps h
           \<and> n_updates s' = n_updates s + 1
           \<and> (if n_updates s mod u = 0
               then steps s' = steps s @ [step s]
                  \<and> length (train_rewards s') = Suc (length (train_rewards s))
                  \<and> length (test_rewards s') =
                      (if get_test_error h then Suc (length (test_rewards s)) else length (test_rewards s))
               else steps s' = steps s \<and> train_rewards s' = train_rewards s
                  \<and> test_rewards s' = test_rewards s)"
proof -
  from update_stats_ok [OF assms, of c ee "collect c e h s"]
  obtain s1 where s1: "update_stats c ee h u (collect c e h s) = Inr s1"
    and k: "step s1 = step s" "n_updates s1 = n_updates s"
    and l: "if n_updates s mod u = 0
               then steps s1 = steps s @ [step s]
                  \<and> length (train_rewards s1) = Suc (length (train_rewards s))
                  \<and> length (test_rewards s1) =
                      (if get_test_error h then Suc (length (test_rewards s)) else length (test_rewards s))
               else s1 = collect c e h s"
    by (auto simp: collect_keeps)
  show ?thesis
    using k l by (simp add: iteration_def s1 Let_def optimize_keeps bootstrap_keeps collect_keeps split: if_splits)
qed


lemma train_loop_returns:
  assumes D: "0 < num_envs e * num_steps h" and u: "u \<noteq> 0"
    and g: "get_test_error h \<longrightarrow> 1 \<le> num_steps h"
  shows "\<exists>s' k. train_loop c e ee h u s = Some (Inr s')
           \<and> total_steps h \<le> step s'
           \<and> step s' = step s + int k * (num_envs e * num_steps h)
           \<and> n_updates s' = n_updates s + int k
           \<and> (step s < total_steps h \<longrightarrow> 0 < k \<and> step s' - num_envs e * num_steps h < total_steps h)
           \<and> (\<not> step s < total_steps h \<longrightarrow> s' = s)
           \<and> take (length (steps s)) (steps s') = steps s
           \<and> length (steps s) \<le> length (steps s')
           \<and> length (train_rewards s) \<le> length (train_rewards s')
           \<and> length (test_rewards s) \<le> length (test_rewards s')
           \<and> (step s < total_steps h \<and> n_updates s mod u = 0 \<longrightarrow>
                 length (steps s) < length (steps s')
               \<and> steps s' ! length (steps s) = step s
               \<and> length (train_rewards s) < length (train_rewards s')
               \<and> (get_test_error h \<longrightarrow> length (test_rewards s) < length (test_rewards s')))"
proof (induction "nat (total_steps h - step s)" arbitrary: s rule: less_induct)
  case less
  show ?case
  proof (cases "step s < total_steps h")
    case False
    then have "train_loop c e ee h u s = Some (Inr s)"
      by (subst train_loop.simps) simp
    with False show ?thesis by (intro exI [of _ s] exI [of _ 0]) simp
  next
    case True
    from iteration_ok [OF u g, of c e ee s]
    obtain s1 where it: "iteration c e ee h u s = Inr s1"
      and st: "step s1 = step s + num_envs e * num_steps h"
      and nu: "n_updates s1 = n_updates s + 1"
      and ls: "if n_updates s mod u = 0
               then steps s1 = steps s @ [step s]
                  \<and> length (train_rewards s1) = Suc (length (train_rewards s))
                  \<and> length (test_rewards s1) =
                      (if get_test_error h then Suc (length (test_rewards s)) else length (test_rewards s))
               else steps s1 = steps s \<and> train_rewards s1 = train_rewards s
                  \<and> test_rewards s1 = test_rewards s"
      by blast
    have "nat (total_steps h - step s1) < nat (total_steps h - step s)"
      using True D st by simp
    from less [OF this]
    obtain s' k where r: "train_loop c e ee h u s1 = Some (Inr s')"
      and a: "total_steps h \<le> step s'"
      and b: "step s' = step s1 + int k * (num_envs e * num_steps h)"
      and n: "n_updates s' = n_updates s1 + int k"
      and d: "step s1 < total_steps h \<longrightarrow> 0 < k \<and> step s' - num_envs e * num_steps h < total_steps h"
      and f: "\<not> step s1 < total_steps h \<longrightarrow> s' = s1"
      and l0: "take (length (steps s1)) (steps s') = steps s1"
      and l1: "length (steps s1) \<le> length (steps s')"
      and l2: "length (train_rewards s1) \<le> length (train_rewards s')"
      and l3: "length (test_rewards s1) \<le> length (test_rewards s')"
      by blast
    have loop: "train_loop c e ee h u s = Some (Inr s')"
      using True it r by (subst train_loop.simps) simp
    have step': "step s' = step s + int (Suc k) * (num_envs e * num_steps h)"
      using b st by (simp add: algebra_simps)
    have nup: "n_updates s' = n_updates s + int (Suc k)"
      using n nu by simp
    have prev: "step s' - num_envs e * num_steps h < total_steps h"
    proof (cases "step s1 < total_steps h")
      case True
      with d show ?thesis by simp
    next
      case False
      with f have "s' = s1" by simp
      with st \<open>step s < total_steps h\<close> show ?thesis by simp
    qed
    have m1: "length (steps s) \<le> length (steps s')"
      and m2: "length (train_rewards s) \<le> length (train_rewards s')"
      and m3: "length (test_rewards s) \<le> length (test_rewards s')"
      using ls l1 l2 l3 by (auto split: if_splits)
    have m0: "take (length (steps s)) (steps s') = steps s"
    proof (cases "n_updates s mod u = 0")
      case True
      with ls have "steps s1 = steps s @ [step s]" by simp
      with l0 have "take (Suc (length (steps s))) (steps s') = steps s @ [step s]" by simp
      then have "take (length (steps s)) (take (Suc (length (steps s))) (steps s')) = steps s"
        by simp
      then show ?thesis by (simp add: min_def)
    next
      case False
      with ls l0 show ?thesis by simp
    qed
    have m5: "n_updates s mod u = 0 \<longrightarrow> steps s' ! length (steps s) = step s"
    proof
      assume "n_updates s mod u = 0"
      with ls have e: "steps s1 = steps s @ [step s]" by simp
      with l1 have lt: "length (steps s) < length (steps s')" by simp
      have "steps s' ! length (steps s) = take (length (steps s1)) (steps s') ! length (steps s)"
        using e by simp
      also have "\<dots> = step s" using l0 e by simp
      finally show "steps s' ! length (steps s) = step s" .
    qed
    have m4: "n_updates s mod u = 0 \<longrightarrow>
                 length (steps s) < length (steps s')
               \<and> length (train_rewards s) < length (train_rewards s')
               \<and> (get_test_error h \<longrightarrow> length (test_rewards s) < length (test_rewards s'))"
      using ls l1 l2 l3 by (auto split: if_splits)
    show ?thesis
      using loop a step' nup prev m0 m1 m2 m3 m4 m5 True
      by (intro exI [of _ s'] exI [of _ "Suc k"]) simp
  qed
qed

lemma train_init_ok:
  assumes "num_envs e \<noteq> 0" and "num_steps h \<noteq> 0"
  shows "\<exists>s0. train_init c e (Some ee) h w =
               Inr (total_steps h div (num_envs e * num_steps h * 100) + 1, ee, s0)
           \<and> step s0 = 0 \<and> n_updates s0 = 0 \<and> steps s0 = [] \<and> train_rewards s0 = []
           \<and> test_rewards s0 = []"
  using assms by (simp add: train_init_def update_ite_def Let_def case_prod_beta)

lemma update_ite_pos:
  assumes "1 \<le> nenvs" and "1 \<le> nsteps" and "0 \<le> tot"
  shows "\<exists>u. update_ite tot nenvs nsteps = Inr u \<and> 1 \<le> u"
proof -
  have "0 < nenvs * nsteps" using assms by simp
  then have d: "0 < nenvs * nsteps * 100" by simp
  then have "0 \<le> tot div (nenvs * nsteps * 100)"
    using assms(3) by (simp add: pos_imp_zdiv_nonneg_iff)
  moreover have "nenvs \<noteq> 0" "nsteps \<noteq> 0" using assms by simp_all
  ultimately show ?thesis by (simp add: update_ite_def)
qed

text \<open>
  Claim C5. With at least one environment instance and at least one step per rollout,
  the \<open>while\<close> loop of \<open>train_model\<close> returns for every budget, and it returns
  without an error: it is left through its condition only, with the counter at or above
  \<open>total_steps\<close>. The counter starts at 0 and has grown by
  \<open>env.num_envs * num_steps\<close> in each of the \<open>k\<close> iterations; one iteration
  earlier it was still below the budget.
\<close>

theorem train_loop_terminates:
  assumes "1 \<le> num_envs e" and "1 \<le> num_steps h"
  shows "\<exists>u s0 s' k. train_init c e (Some ee) h w = Inr (u, ee, s0)
           \<and> step s0 = 0
           \<and> train_loop c e ee h u s0 = Some (Inr s')
           \<and> total_steps h \<le> step s'
           \<and> step s' = int k * (num_envs e * num_steps h)
           \<and> n_updates s' = int k
           \<and> (if total_steps h \<le> 0 then k = 0
               else 0 < k \<and> step s' - num_envs e * num_steps h < total_steps h)"
proof -
  let ?D = "num_envs e * num_steps h"
  let ?u = "total_steps h div (?D * 100) + 1"
  have D: "0 < ?D" using assms by simp
  have "num_envs e \<noteq> 0" "num_steps h \<noteq> 0" using assms by simp_all
  from train_init_ok [OF this, of c ee w]
  obtain s0 where I: "train_init c e (Some ee) h w = Inr (?u, ee, s0)
           \<and> step s0 = 0 \<and> n_updates s0 = 0 \<and> steps s0 = [] \<and> train_rewards s0 = []
           \<and> test_rewards s0 = []" ..
  then have i: "train_init c e (Some ee) h w = Inr (?u, ee, s0)"
    and z: "step s0 = 0" "n_updates s0 = 0"
    by simp_all
  show ?thesis
  proof (cases "total_steps h \<le> 0")
    case True
    then have "train_loop c e ee h ?u s0 = Some (Inr s0)"
      using z by (subst train_loop.simps) simp
    with i z True show ?thesis
      by (intro exI [of _ ?u] exI [of _ s0] exI [of _ "0::nat"]) simp
  next
    case False
    then have "0 \<le> total_steps h" by simp
    then have "0 \<le> total_steps h div (?D * 100)"
      using D by (simp add: pos_imp_zdiv_nonneg_iff)
    then have u: "?u \<noteq> 0" by simp
    have g: "get_test_error h \<longrightarrow> 1 \<le> num_steps h" using assms by simp
    from train_loop_returns [OF D u g, of c ee s0]
    obtain s' k where r: "train_loop c e ee h ?u s0 = Some (Inr s')"
      and a: "total_steps h \<le> step s'" and b0: "step s' = step s0 + int k * ?D"
      and n0: "n_updates s' = n_updates s0 + int k"
      and p0: "step s0 < total_steps h \<longrightarrow> 0 < k \<and> step s' - ?D < total_steps h"
      by blast
    from b0 n0 p0 have b: "step s' = int k * ?D" and n: "n_updates s' = int k"
      and p: "0 < k \<and> step s' - ?D < total_steps h"
      using z False by simp_all
    from r a b n p
    show ?thesis using i z False
      by (intro exI [of _ ?u] exI [of _ s0] exI [of _ s'] exI [of _ k]) simp
  qed
qed

theorem train_loop_terminates_witness:
  "\<exists>u s0 s' k. train_init demo_collab demo_env (Some demo_env) demo_hyper 0 = Inr (u, demo_env, s0)
     \<and> train_loop demo_collab demo_env demo_env demo_hyper u s0 = Some (Inr s')
     \<and> step s' = 8 * int k \<and> n_updates s' = int k \<and> 0 < k \<and> step s' < 16"
proof -
  have a: "1 \<le> num_envs demo_env" and b: "1 \<le> num_steps demo_hyper"
    by (simp_all add: demo_env_def demo_hyper_def)
  from train_loop_terminates [OF a b, of demo_collab demo_env 0]
  obtain u s0 s' k where i: "train_init demo_collab demo_env (Some demo_env) demo_hyper 0 = Inr (u, demo_env, s0)"
    and r: "train_loop demo_collab demo_env demo_env demo_hyper u s0 = Some (Inr s')"
    and e: "step s' = int k * (num_envs demo_env * num_steps demo_hyper)"
    and n: "n_updates s' = int k"
    and f: "if total_steps demo_hyper \<le> 0 then k = 0
            else 0 < k \<and> step s' - num_envs demo_env * num_steps demo_hyper < total_steps demo_hyper"
    by blast
  from e have "step s' = 8 * int k" by (simp add: demo_env_def demo_hyper_def)
  moreover from f have "0 < k \<and> step s' < 16" by (simp add: demo_env_def demo_hyper_def)
  ultimately show ?thesis using i r n by blast
qed

text \<open>
  Claim C9. For a budget of at least one step, the counter at the exit of the loop is
  the least multiple of \<open>env.num_envs * num_steps\<close> that is at least
  \<open>total_steps\<close>, so the transitions collected exceed the budget by at most
  \<open>env.num_envs * num_steps - 1\<close>.
\<close>

theorem final_step_least_multiple:
  assumes "1 \<le> num_envs e" and "1 \<le> num_steps h" and "1 \<le> total_steps h"
  shows "\<exists>u s0 s'. train_init c e (Some ee) h w = Inr (u, ee, s0)
           \<and> train_loop c e ee h u s0 = Some (Inr s')
           \<and> num_envs e * num_steps h dvd step s'
           \<and> total_steps h \<le> step s'
           \<and> (\<forall>m. num_envs e * num_steps h dvd m \<and> total_steps h \<le> m \<longrightarrow> step s' \<le> m)
           \<and> step s' - total_steps h \<le> num_envs e * num_steps h - 1"
proof -
  let ?D = "num_envs e * num_steps h"
  let ?u = "total_steps h div (?D * 100) + 1"
  have D: "0 < ?D" using assms by simp
  have "num_envs e \<noteq> 0" "num_steps h \<noteq> 0" using assms by simp_all
  from train_init_ok [OF this, of c ee w]
  obtain s0 where I: "train_init c e (Some ee) h w = Inr (?u, ee, s0)
           \<and> step s0 = 0 \<and> n_updates s0 = 0 \<and> steps s0 = [] \<and> train_rewards s0 = []
           \<and> test_rewards s0 = []" ..
  then have i: "train_init c e (Some ee) h w = Inr (?u, ee, s0)"
    and z: "step s0 = 0" "n_updates s0 = 0"
    by simp_all
  have "0 \<le> total_steps h div (?D * 100)"
    using D assms(3) by (simp add: pos_imp_zdiv_nonneg_iff)
  then have u: "?u \<noteq> 0" by simp
  have g: "get_test_error h \<longrightarrow> 1 \<le> num_steps h" using assms by simp
  from train_loop_returns [OF D u g, of c ee s0]
  obtain s' k where r: "train_loop c e ee h ?u s0 = Some (Inr s')"
    and ge: "total_steps h \<le> step s'" and eq: "step s' = step s0 + int k * ?D"
    and pr: "step s0 < total_steps h \<longrightarrow> 0 < k \<and> step s' - ?D < total_steps h"
    by blast
  have eq': "step s' = int k * ?D" using eq z by simp
  have lt: "step s' - ?D < total_steps h" using pr z assms(3) by simp
  have least: "step s' \<le> m" if m: "?D dvd m" "total_steps h \<le> m" for m
  proof -
    from m(1) obtain j where j: "m = ?D * j" by (auto simp: dvd_def)
    have "int k * ?D - ?D < ?D * j" using lt m(2) j eq' by simp
    then have "?D * (int k - 1) < ?D * j" by (simp add: algebra_simps)
    then have "int k - 1 < j" using D by (simp add: mult_less_cancel_left_pos)
    then have "int k \<le> j" by simp
    then have "?D * int k \<le> ?D * j" using D by (simp add: mult_le_cancel_left_pos)
    then show ?thesis using eq' j by (simp add: mult.commute)
  qed
  have dv: "?D dvd step s'" using eq' by simp
  have le: "step s' - total_steps h \<le> ?D - 1" using lt by simp
  have al: "\<forall>m. ?D dvd m \<and> total_steps h \<le> m \<longrightarrow> step s' \<le> m"
    using least by blast
  from i r dv ge al le show ?thesis
    by (intro exI [of _ ?u] exI [of _ s0] exI [of _ s'] conjI)
qed

theorem final_step_least_multiple_witness:
  "\<exists>u s0 s'. train_init demo_collab demo_env (Some demo_env) overshoot_hyper 0 = Inr (u, demo_env, s0)
     \<and> train_loop demo_collab demo_env demo_env overshoot_hyper u s0 = Some (Inr s')
     \<and> step s' = 8 \<and> step s' - total_steps overshoot_hyper = 7"
proof -
  have a: "1 \<le> num_envs demo_env" and b: "1 \<le> num_steps overshoot_hyper"
    and t: "1 \<le> total_steps overshoot_hyper"
    by (simp_all add: demo_env_def overshoot_hyper_def)
  from final_step_least_multiple [OF a b t, of demo_collab demo_env 0]
  obtain u s0 s' where i: "train_init demo_collab demo_env (Some demo_env) overshoot_hyper 0 = Inr (u, demo_env, s0)"
    and r: "train_loop demo_collab demo_env demo_env overshoot_hyper u s0 = Some (Inr s')"
    and d: "num_envs demo_env * num_steps overshoot_hyper dvd step s'"
    and ge: "total_steps overshoot_hyper \<le> step s'"
    and le: "step s' - total_steps overshoot_hyper \<le> num_envs demo_env * num_steps overshoot_hyper - 1"
    by blast
  from d have "8 dvd step s'" by (simp add: demo_env_def overshoot_hyper_def)
  moreover from ge have "1 \<le> step s'" by (simp add: overshoot_hyper_def)
  moreover from le have "step s' \<le> 8" by (simp add: demo_env_def overshoot_hyper_def)
  ultimately have "step s' = 8" by presburger
  moreover have "total_steps overshoot_hyper = 1" by (simp add: overshoot_hyper_def)
  ultimately show ?thesis using i r by auto
qed

subsection \<open>Recording of the statistics\<close>

text \<open>
  Claim C10, as stated, lets \<open>update_ite\<close> be at least 1 for all inputs. Python's
  \<open>//\<close> floors, so a negative budget gives a value below 1: for
  \<open>total_steps = -150\<close>, one environment instance and one step per rollout, line 123
  computes \<open>-150 // 100 + 1 = -1\<close>.
\<close>

theorem update_ite_negative_budget:
  "update_ite (- 150) 1 1 = Inr (- 1) \<and> \<not> (1::int) \<le> - 1"
  by (simp add: update_ite_def)

text \<open>
  Claim C10, amended. For every budget \<open>total_steps \<ge> 0\<close> and
  \<open>env.num_envs, num_steps \<ge> 1\<close>, \<open>update_ite\<close> is at least 1. Whenever moreover
  \<open>total_steps \<ge> 1\<close>, \<open>train_model\<close> returns, the first iteration has recorded
  its statistics (the first recorded step is the counter value 0), the lists
  \<open>steps\<close> and \<open>train_rewards\<close> are not empty, with \<open>get_test_error\<close> neither is
  \<open>test_rewards\<close>, and no \<open>torch.stack\<close> of lines 192 to 195 fails.
\<close>

theorem stats_recorded:
  assumes "1 \<le> num_envs e" and "1 \<le> num_steps h" and "0 \<le> total_steps h"
  shows "\<exists>u. update_ite (total_steps h) (num_envs e) (num_steps h) = Inr u \<and> 1 \<le> u
           \<and> (1 \<le> total_steps h \<longrightarrow>
                (\<exists>te s'. train_model c e (Some ee) h w
                            = Some (Inr ((steps s', train_rewards s', te), s'))
                   \<and> steps s' \<noteq> [] \<and> steps s' ! 0 = 0 \<and> train_rewards s' \<noteq> []
                   \<and> (if get_test_error h then te = Some (test_rewards s') \<and> test_rewards s' \<noteq> []
                       else te = None)))"
proof -
  let ?D = "num_envs e * num_steps h"
  let ?u = "total_steps h div (?D * 100) + 1"
  have D: "0 < ?D" using assms by simp
  have ne: "num_envs e \<noteq> 0" "num_steps h \<noteq> 0" using assms by simp_all
  have "0 \<le> total_steps h div (?D * 100)"
    using D assms(3) by (simp add: pos_imp_zdiv_nonneg_iff)
  then have u1: "1 \<le> ?u" by simp
  then have u: "?u \<noteq> 0" by simp
  have ui: "update_ite (total_steps h) (num_envs e) (num_steps h) = Inr ?u"
    using ne by (simp add: update_ite_def)
  have main: "\<exists>te s'. train_model c e (Some ee) h w
                            = Some (Inr ((steps s', train_rewards s', te), s'))
                   \<and> steps s' \<noteq> [] \<and> steps s' ! 0 = 0 \<and> train_rewards s' \<noteq> []
                   \<and> (if get_test_error h then te = Some (test_rewards s') \<and> test_rewards s' \<noteq> []
                       else te = None)"
    if t: "1 \<le> total_steps h"
  proof -
    from train_init_ok [OF ne, of c ee w]
    obtain s0 where I: "train_init c e (Some ee) h w = Inr (?u, ee, s0)
           \<and> step s0 = 0 \<and> n_updates s0 = 0 \<and> steps s0 = [] \<and> train_rewards s0 = []
           \<and> test_rewards s0 = []" ..
    then have i: "train_init c e (Some ee) h w = Inr (?u, ee, s0)"
      and z: "step s0 = 0" "n_updates s0 = 0" "steps s0 = []" "train_rewards s0 = []"
        "test_rewards s0 = []"
      by simp_all
    have g: "get_test_error h \<longrightarrow> 1 \<le> num_steps h" using assms by simp
    from train_loop_returns [OF D u g, of c ee s0]
    obtain s' k where r: "train_loop c e ee h ?u s0 = Some (Inr s')"
      and f: "step s0 < total_steps h \<and> n_updates s0 mod ?u = 0 \<longrightarrow>
                 length (steps s0) < length (steps s')
               \<and> steps s' ! length (steps s0) = step s0
               \<and> length (train_rewards s0) < length (train_rewards s')
               \<and> (get_test_error h \<longrightarrow> length (test_rewards s0) < length (test_rewards s'))"
      by blast
    from f z t have a: "steps s' \<noteq> []" and b: "steps s' ! 0 = 0" and c: "train_rewards s' \<noteq> []"
      and d: "get_test_error h \<longrightarrow> test_rewards s' \<noteq> []"
      by auto
    show ?thesis
    proof (cases "get_test_error h")
      case True
      with d have "test_rewards s' \<noteq> []" by simp
      with True a b c i r show ?thesis
        by (intro exI [of _ "Some (test_rewards s')"] exI [of _ s'])
           (simp add: train_model_def train_result_def torch_stack_def)
    next
      case False
      with a b c i r show ?thesis
        by (intro exI [of _ None] exI [of _ s'])
           (simp add: train_model_def train_result_def torch_stack_def)
    qed
  qed
  from ui u1 main show ?thesis by blast
qed

theorem stats_recorded_witness:
  "update_ite 8 2 4 = Inr 1
     \<and> (\<exists>te s'. train_model demo_collab demo_env (Some demo_env) demo_hyper 0
                   = Some (Inr ((steps s', train_rewards s', te), s'))
          \<and> steps s' \<noteq> [] \<and> steps s' ! 0 = 0 \<and> train_rewards s' \<noteq> []
          \<and> te = Some (test_rewards s') \<and> test_rewards s' \<noteq> [])"
proof -
  have a: "1 \<le> num_envs demo_env" and b: "1 \<le> num_steps demo_hyper"
    and t: "0 \<le> total_steps demo_hyper"
    by (simp_all add: demo_env_def demo_hyper_def)
  have t1: "1 \<le> total_steps demo_hyper" and g: "get_test_error demo_hyper"
    by (simp_all add: demo_hyper_def)
  from stats_recorded [OF a b t, of demo_collab demo_env 0] t1 g
  have "\<exists>te s'. train_model demo_collab demo_env (Some demo_env) demo_hyper 0
                   = Some (Inr ((steps s', train_rewards s', te), s'))
          \<and> steps s' \<noteq> [] \<and> steps s' ! 0 = 0 \<and> train_rewards s' \<noteq> []
          \<and> te = Some (test_rewards s') \<and> test_rewards s' \<noteq> []"
    by simp blast
  moreover have "update_ite 8 2 4 = Inr 1" by (simp add: update_ite_def)
  ultimately show ?thesis by simp
qed

section \<open>Properties of the trajectory store\<close>

subsection \<open>The write position\<close>

lemma store_all_fits:
  "st_pos st + length trs \<le> st_num_steps st \<Longrightarrow>
     \<exists>st'. store_all trs st = Inr st' \<and> st_pos st' = st_pos st + length trs
          \<and> st_num_steps st' = st_num_steps st"
proof (induction trs arbitrary: st)
  case Nil
  then show ?case by simp
next
  case (Cons tr trs)
  let ?st1 = "st\<lparr>st_obs := (st_obs st)[st_pos st := t_obs tr],
                   st_action := (st_action st)[st_pos st := t_action tr],
                   st_reward := (st_reward st)[st_pos st := t_reward tr],
                   st_done := (st_done st)[st_pos st := t_done tr],
                   st_info := (st_info st)[st_pos st := t_info tr],
                   st_log_prob := (st_log_prob st)[st_pos st := t_log_prob tr],
                   st_value := (st_value st)[st_pos st := t_value tr],
                   st_pos := Suc (st_pos st)\<rparr>"
  from Cons.prems have s: "store tr st = Inr ?st1" by (simp add: store_def)
  from Cons.prems have "st_pos ?st1 + length trs \<le> st_num_steps ?st1" by simp
  from Cons.IH [OF this] s show ?case by simp
qed





subsection \<open>Returns and advantages\<close>

lemma residual_tables [simp]:
  "residual (st\<lparr>st_delta := x, st_advantage := y\<rparr>) t = residual st t"
  by (simp add: residual_def)

lemma gae_step_tables [simp]:
  "gae_step (st\<lparr>st_delta := x, st_advantage := y\<rparr>) t adv = gae_step st t adv"
  by (simp add: gae_step_def)

lemma backward_inputs:
  "st_num_steps (backward k adv st) = st_num_steps st"
  "st_num_envs (backward k adv st) = st_num_envs st"
  "st_gamma (backward k adv st) = st_gamma st"
  "st_lam (backward k adv st) = st_lam st"
  "st_reward (backward k adv st) = st_reward st"
  "st_done (backward k adv st) = st_done st"
  "st_value (backward k adv st) = st_value st"
  "st_pos (backward k adv st) = st_pos st"
  by (induction k arbitrary: adv st; simp add: Let_def)+

lemma backward_lengths:
  "length (st_delta (backward k adv st)) = length (st_delta st)"
  "length (st_advantage (backward k adv st)) = length (st_advantage st)"
  by (induction k arbitrary: adv st; simp add: Let_def)+

lemma backward_above:
  "k \<le> t \<Longrightarrow> st_delta (backward k adv st) ! t = st_delta st ! t"
  "k \<le> t \<Longrightarrow> st_advantage (backward k adv st) ! t = st_advantage st ! t"
  by (induction k arbitrary: adv st; simp add: Let_def)+

lemma backward_delta:
  "t < k \<Longrightarrow> k \<le> length (st_delta st) \<Longrightarrow>
     st_delta (backward k adv st) ! t = residual st t"
proof (induction k arbitrary: adv st)
  case 0
  then show ?case by simp
next
  case (Suc k)
  show ?case
  proof (cases "t = k")
    case True
    with Suc.prems show ?thesis by (simp add: Let_def backward_above)
  next
    case False
    with Suc.prems have "t < k" by simp
    with Suc.prems Suc.IH show ?thesis by (simp add: Let_def)
  qed
qed

lemma backward_advantage:
  "t < k \<Longrightarrow> k \<le> length (st_advantage st) \<Longrightarrow>
     st_advantage (backward k adv st) ! t =
       gae_step st t (if Suc t < k then st_advantage (backward k adv st) ! Suc t else adv)"
proof (induction k arbitrary: adv st)
  case 0
  then show ?case by simp
next
  case (Suc k)
  let ?a = "gae_step st k adv"
  let ?st1 = "st\<lparr>st_delta := (st_delta st)[k := residual st k],
                   st_advantage := (st_advantage st)[k := ?a]\<rparr>"
  have atk: "st_advantage (backward k ?a ?st1) ! k = ?a"
    using Suc.prems by (simp add: backward_above)
  show ?case
  proof (cases "t = k")
    case True
    with atk show ?thesis by (simp add: Let_def)
  next
    case False
    with Suc.prems have tk: "t < k" by simp
    have "k \<le> length (st_advantage ?st1)" using Suc.prems by simp
    from Suc.IH [OF tk this, of ?a]
    have "st_advantage (backward k ?a ?st1) ! t =
            gae_step st t (if Suc t < k then st_advantage (backward k ?a ?st1) ! Suc t else ?a)"
      by simp
    with tk atk show ?thesis by (cases "Suc t = k") (simp_all add: Let_def)
  qed
qed

lemma residual_cell:
  "e < st_num_envs st \<Longrightarrow>
     residual st t ! e =
       st_reward st ! t ! e
       + st_gamma st * (st_value st ! Suc t ! e) * not_done (st_done st ! t ! e)
       - st_value st ! t ! e"
  by (simp add: residual_def)

lemma gae_step_cell:
  "e < st_num_envs st \<Longrightarrow>
     gae_step st t adv ! e =
       residual st t ! e + st_gamma st * st_lam st * not_done (st_done st ! t ! e) * adv ! e"
  by (simp add: gae_step_def)

lemma compute_inputs:
  "st_num_steps (compute_return_advantage st) = st_num_steps st"
  "st_num_envs (compute_return_advantage st) = st_num_envs st"
  "st_reward (compute_return_advantage st) = st_reward st"
  "st_done (compute_return_advantage st) = st_done st"
  "st_value (compute_return_advantage st) = st_value st"
  by (simp_all add: compute_return_advantage_def Let_def backward_inputs)

lemma compute_delta:
  assumes "filled st" and "t < st_num_steps st" and "e < st_num_envs st"
  shows "st_delta (compute_return_advantage st) ! t ! e =
           st_reward st ! t ! e
           + st_gamma st * (st_value st ! Suc t ! e) * not_done (st_done st ! t ! e)
           - st_value st ! t ! e"
proof -
  have "st_num_steps st \<le> length (st_delta st)" using assms(1) by (simp add: filled_def shaped_def)
  with assms show ?thesis
    by (simp add: compute_return_advantage_def Let_def backward_delta residual_cell)
qed

lemma compute_advantage:
  assumes "filled st" and "t < st_num_steps st" and "e < st_num_envs st"
  shows "st_advantage (compute_return_advantage st) ! t ! e =
           st_delta (compute_return_advantage st) ! t ! e
           + st_gamma st * st_lam st * not_done (st_done st ! t ! e)
             * (if Suc t < st_num_steps st
                then st_advantage (compute_return_advantage st) ! Suc t ! e else 0)"
proof -
  let ?b = "backward (st_num_steps st) (replicate (st_num_envs st) 0) st"
  have l: "st_num_steps st \<le> length (st_advantage st)" "st_num_steps st \<le> length (st_delta st)"
    using assms(1) by (simp_all add: filled_def shaped_def)
  have a: "st_advantage ?b ! t =
             gae_step st t (if Suc t < st_num_steps st then st_advantage ?b ! Suc t
                            else replicate (st_num_envs st) 0)"
    using assms(2) l(1) by (rule backward_advantage)
  have d: "st_delta ?b ! t = residual st t"
    using assms(2) l(2) by (rule backward_delta)
  have "st_advantage ?b ! t ! e =
          residual st t ! e + st_gamma st * st_lam st * not_done (st_done st ! t ! e)
            * (if Suc t < st_num_steps st then st_advantage ?b ! Suc t ! e else 0)"
    using assms(3) by (simp add: a gae_step_cell)
  with d show ?thesis
    by (simp add: compute_return_advantage_def Let_def)
qed

lemma compute_returns:
  assumes "t < st_num_steps st" and "e < st_num_envs st"
  shows "st_returns (compute_return_advantage st) ! t ! e =
           st_advantage (compute_return_advantage st) ! t ! e + st_value st ! t ! e"
  using assms by (simp add: compute_return_advantage_def Let_def backward_inputs)

lemma shaped_new_storage: "shaped (new_storage z n m g l)"
  by (simp add: shaped_def new_storage_def)

lemma all_update:
  "\<forall>r \<in> set xs. P r \<Longrightarrow> P x \<Longrightarrow> \<forall>r \<in> set (xs[i := x]). P r"
  using set_update_subset_insert [of xs i x] by blast

lemma store_fields:
  assumes "store tr st = Inr st'"
  shows "st_num_steps st' = st_num_steps st" "st_num_envs st' = st_num_envs st"
    "st_reward st' = (st_reward st)[st_pos st := t_reward tr]"
    "st_done st' = (st_done st)[st_pos st := t_done tr]"
    "st_value st' = (st_value st)[st_pos st := t_value tr]"
    "st_delta st' = st_delta st" "st_advantage st' = st_advantage st"
  using assms by (auto simp: store_def split: if_splits)


lemma shaped_store:
  assumes "shaped st" and "store tr st = Inr st'"
    and "length (t_reward tr) = st_num_envs st" and "length (t_done tr) = st_num_envs st"
    and "length (t_value tr) = st_num_envs st"
  shows "shaped st'"
proof -
  note f = store_fields [OF assms(2)]
  from assms(1) have a: "\<forall>r \<in> set (st_reward st). length r = st_num_envs st"
    and b: "\<forall>d \<in> set (st_done st). length d = st_num_envs st"
    and c: "\<forall>v \<in> set (st_value st). length v = st_num_envs st"
    and l: "length (st_reward st) = st_num_steps st" "length (st_done st) = st_num_steps st"
      "length (st_value st) = Suc (st_num_steps st)" "length (st_delta st) = st_num_steps st"
      "length (st_advantage st) = st_num_steps st"
    unfolding shaped_def by blast+
  have a': "\<forall>r \<in> set (st_reward st'). length r = st_num_envs st'"
    unfolding f using a assms(3) by (rule all_update)
  have b': "\<forall>r \<in> set (st_done st'). length r = st_num_envs st'"
    unfolding f using b assms(4) by (rule all_update)
  have c': "\<forall>r \<in> set (st_value st'). length r = st_num_envs st'"
    unfolding f using c assms(5) by (rule all_update)
  have l': "length (st_reward st') = st_num_steps st'" "length (st_done st') = st_num_steps st'"
      "length (st_value st') = Suc (st_num_steps st')" "length (st_delta st') = st_num_steps st'"
      "length (st_advantage st') = st_num_steps st'"
    unfolding f using l by simp_all
  from a' b' c' l' show ?thesis unfolding shaped_def by blast
qed


lemma shaped_store_all:
  assumes "shaped st" and "store_all trs st = Inr st'"
    and "\<forall>tr \<in> set trs. length (t_reward tr) = st_num_envs st
           \<and> length (t_done tr) = st_num_envs st \<and> length (t_value tr) = st_num_envs st"
  shows "shaped st' \<and> st_num_envs st' = st_num_envs st"
  using assms
proof (induction trs arbitrary: st)
  case Nil
  then show ?case by simp
next
  case (Cons tr trs)
  from Cons.prems(2) obtain st1 where s: "store tr st = Inr st1" and r: "store_all trs st1 = Inr st'"
    by (cases "store tr st") simp_all
  from Cons.prems(3) have t: "length (t_reward tr) = st_num_envs st"
    "length (t_done tr) = st_num_envs st" "length (t_value tr) = st_num_envs st"
    by simp_all
  have sh: "shaped st1" using Cons.prems(1) s t by (rule shaped_store)
  have ne: "st_num_envs st1 = st_num_envs st" using s by (rule store_fields)
  from Cons.prems(3) have "\<forall>tr \<in> set trs. length (t_reward tr) = st_num_envs st1
           \<and> length (t_done tr) = st_num_envs st1 \<and> length (t_value tr) = st_num_envs st1"
    unfolding ne by simp
  from Cons.IH [OF sh r this] ne show ?case by simp
qed

lemma shaped_store_last:
  assumes "shaped st" and "length v = st_num_envs st"
  shows "shaped (store_last ob v st)"
proof -
  from assms(1) have c: "\<forall>v \<in> set (st_value st). length v = st_num_envs st"
    unfolding shaped_def by blast
  have "\<forall>r \<in> set ((st_value st)[st_num_steps st := v]). length r = st_num_envs st"
    using c assms(2) by (rule all_update)
  with assms(1) show ?thesis by (simp add: shaped_def store_last_def)
qed

text \<open>A new buffer filled with one rollout of well-shaped transitions is a filled window.\<close>

lemma fill_new_storage:
  assumes "length trs = n"
    and "\<forall>tr \<in> set trs. length (t_reward tr) = m \<and> length (t_done tr) = m \<and> length (t_value tr) = m"
    and "length v = m"
  shows "\<exists>st. fill trs ob v (new_storage z n m g l) = Inr st \<and> filled st"
proof -
  let ?s0 = "new_storage z n m g l"
  have m: "st_num_envs ?s0 = m" and z: "st_pos ?s0 = 0" and k: "st_num_steps ?s0 = n"
    by (simp_all add: new_storage_def)
  have "st_pos ?s0 + length trs \<le> st_num_steps ?s0"
    using assms(1) z k by simp
  from store_all_fits [OF this]
  obtain st1 where a: "store_all trs ?s0 = Inr st1"
    and p: "st_pos st1 = st_pos ?s0 + length trs" and n: "st_num_steps st1 = st_num_steps ?s0"
    by blast
  have "\<forall>tr \<in> set trs. length (t_reward tr) = st_num_envs ?s0
           \<and> length (t_done tr) = st_num_envs ?s0 \<and> length (t_value tr) = st_num_envs ?s0"
    unfolding m by (rule assms(2))
  from shaped_store_all [OF shaped_new_storage a this]
  have sh: "shaped st1" and ne: "st_num_envs st1 = m" unfolding m by simp_all
  have pos: "st_pos st1 = st_num_steps st1" using p n assms(1) z k by simp
  have "shaped (store_last ob v st1)" using sh assms(3) ne by (simp add: shaped_store_last)
  moreover have "st_pos (store_last ob v st1) = st_num_steps (store_last ob v st1)"
    using pos by (simp add: store_last_def)
  ultimately have "filled (store_last ob v st1)" by (simp add: filled_def)
  moreover have "fill trs ob v ?s0 = Inr (store_last ob v st1)" by (simp add: fill_def a)
  ultimately show ?thesis by blast
qed

lemma fill_bootstrap:
  assumes "fill trs ob v st0 = Inr st" and "filled st"
  shows "st_value st ! st_num_steps st = v"
proof -
  from assms(1) obtain st1 where s: "st = store_last ob v st1"
    by (cases "store_all trs st0") (auto simp: fill_def)
  from assms(2) have "length (st_value st) = Suc (st_num_steps st)"
    by (simp add: filled_def shaped_def)
  then have "st_num_steps st1 < length (st_value st1)"
    by (simp add: s store_last_def)
  then show ?thesis by (simp add: s store_last_def)
qed

text \<open>
  Claim C2. In every filled rollout window (the calls of \<open>store\<close>, then
  \<open>store_last\<close> with the bootstrap value \<open>v\<close>), \<open>compute_return_advantage\<close> leaves
  in every cell of time step \<open>t\<close> and environment instance \<open>e\<close> the residual
  \<open>delta_t = reward_t + gamma * value_{t+1} * (1 - done_t) - value_t\<close>, the advantage
  \<open>A_t = delta_t + gamma * lam * (1 - done_t) * A_{t+1}\<close>, and the return
  \<open>R_t = A_t + value_t\<close>. The recursion runs backward from the last step, behind which
  there is no advantage and whose \<open>value_{t+1}\<close> is the bootstrap value.
\<close>

theorem return_advantage_recursion:
  assumes "fill trs ob v st0 = Inr st" and "filled st"
    and "t < st_num_steps st" and "e < st_num_envs st"
  shows "st_value st ! st_num_steps st = v
       \<and> st_delta (compute_return_advantage st) ! t ! e =
           st_reward st ! t ! e
           + st_gamma st * (st_value st ! Suc t ! e) * not_done (st_done st ! t ! e)
           - st_value st ! t ! e
       \<and> st_advantage (compute_return_advantage st) ! t ! e =
           st_delta (compute_return_advantage st) ! t ! e
           + st_gamma st * st_lam st * not_done (st_done st ! t ! e)
             * (if Suc t < st_num_steps st
                then st_advantage (compute_return_advantage st) ! Suc t ! e else 0)
       \<and> st_returns (compute_return_advantage st) ! t ! e =
           st_advantage (compute_return_advantage st) ! t ! e + st_value st ! t ! e"
  using fill_bootstrap [OF assms(1,2)] compute_delta [OF assms(2,3,4)]
    compute_advantage [OF assms(2,3,4)] compute_returns [OF assms(3,4)]
  by (intro conjI)

lemma example_window_eq:
  "example_window =
     Inr \<lparr>st_num_steps = 3, st_num_envs = 1, st_gamma = 99 / 100, st_lam = 95 / 100, st_pos = 3,
          st_obs = [(), (), (), ()], st_action = [(), (), ()],
          st_reward = [[1], [1], [1]], st_done = [[False], [True], [False]],
          st_info = [(), (), ()], st_log_prob = [(), (), ()],
          st_value = [[0], [0], [0], [0]],
          st_returns = [[0], [0], [0]], st_delta = [[0], [0], [0]],
          st_advantage = [[0], [0], [0]]\<rparr>"
  by (simp add: example_window_def fill_def store_def store_last_def new_storage_def
        example_transition_def numeral_3_eq_3)

lemma example_window_filled: "example_window = Inr st \<Longrightarrow> filled st"
  by (auto simp: example_window_eq filled_def shaped_def)

theorem return_advantage_recursion_witness:
  "\<exists>st. example_window = Inr st
       \<and> st_delta (compute_return_advantage st) ! 2 ! 0 = 1
       \<and> st_advantage (compute_return_advantage st) ! 2 ! 0
           = st_delta (compute_return_advantage st) ! 2 ! 0
       \<and> st_returns (compute_return_advantage st) ! 2 ! 0
           = st_advantage (compute_return_advantage st) ! 2 ! 0"
proof -
  obtain st where w: "example_window = Inr st" by (simp add: example_window_eq)
  then have f: "fill [example_transition False, example_transition True, example_transition False]
          () [0] (new_storage () 3 1 (99 / 100) (95 / 100)) = Inr st"
    by (simp add: example_window_def)
  have fl: "filled st" using w by (rule example_window_filled)
  have t: "2 < st_num_steps st" and e: "0 < st_num_envs st"
    using w by (auto simp: example_window_eq)
  have v: "st_reward st ! 2 ! 0 = 1" "st_value st ! 2 ! 0 = 0" "st_value st ! Suc 2 ! 0 = 0"
    "st_num_steps st = 3"
    using w by (auto simp: example_window_eq)
  from return_advantage_recursion [OF f fl t e] v
  have "st_delta (compute_return_advantage st) ! 2 ! 0 = 1
       \<and> st_advantage (compute_return_advantage st) ! 2 ! 0
           = st_delta (compute_return_advantage st) ! 2 ! 0
       \<and> st_returns (compute_return_advantage st) ! 2 ! 0
           = st_advantage (compute_return_advantage st) ! 2 ! 0"
    by simp
  with w show ?thesis by blast
qed

text \<open>
  Claim C1. In every filled rollout window, at every cell whose done flag is set,
  \<open>compute_return_advantage\<close> leaves the advantage equal to the residual, and both
  equal to \<open>reward_t - value_t\<close>: neither \<open>value_{t+1}\<close> nor \<open>A_{t+1}\<close> enters. In
  the instance of three steps, one environment instance, rewards 1, values 0, done
  flags \<open>[False, True, False]\<close>, bootstrap value 0, \<open>gamma = 0.99\<close> and
  \<open>lam = 0.95\<close>, the advantage at step 1 is exactly 1.
\<close>

theorem done_isolates_advantage:
  "(\<forall>st t e. filled st \<and> t < st_num_steps st \<and> e < st_num_envs st \<and> st_done st ! t ! e \<longrightarrow>
       st_advantage (compute_return_advantage st) ! t ! e
         = st_delta (compute_return_advantage st) ! t ! e
     \<and> st_advantage (compute_return_advantage st) ! t ! e
         = st_reward st ! t ! e - st_value st ! t ! e)
   \<and> (\<exists>st. example_window = Inr st
          \<and> st_advantage (compute_return_advantage st) ! 1 ! 0 = 1)"
proof (intro conjI allI impI)
  fix st :: "'a storage" and t e
  assume a: "filled st \<and> t < st_num_steps st \<and> e < st_num_envs st \<and> st_done st ! t ! e"
  then have f: "filled st" and t: "t < st_num_steps st" and e: "e < st_num_envs st"
    and d: "st_done st ! t ! e"
    by simp_all
  from compute_advantage [OF f t e] d
  show "st_advantage (compute_return_advantage st) ! t ! e
         = st_delta (compute_return_advantage st) ! t ! e"
    by (simp add: not_done_def)
  with compute_delta [OF f t e] d
  show "st_advantage (compute_return_advantage st) ! t ! e
         = st_reward st ! t ! e - st_value st ! t ! e"
    by (simp add: not_done_def)
next
  obtain st :: "unit storage" where w: "example_window = Inr st" by (simp add: example_window_eq)
  have f: "filled st" using w by (rule example_window_filled)
  have t: "1 < st_num_steps st" and e: "0 < st_num_envs st"
    using w by (auto simp: example_window_eq)
  have v: "st_reward st ! 1 ! 0 = 1" "st_value st ! 1 ! 0 = 0" "st_value st ! Suc 1 ! 0 = 0"
    "st_done st ! 1 ! 0"
    using w by (auto simp: example_window_eq)
  from compute_advantage [OF f t e] compute_delta [OF f t e] v
  have "st_advantage (compute_return_advantage st) ! 1 ! 0 = 1"
    by (simp add: not_done_def)
  with w show "\<exists>st. example_window = Inr st
          \<and> st_advantage (compute_return_advantage st) ! 1 ! 0 = 1"
    by blast
qed


theorem done_isolates_advantage_witness:
  "\<exists>st. example_window = Inr st \<and> filled st \<and> st_done st ! 1 ! 0
       \<and> st_advantage (compute_return_advantage st) ! 1 ! 0
           = st_delta (compute_return_advantage st) ! 1 ! 0
       \<and> st_advantage (compute_return_advantage st) ! 1 ! 0 = 1
       \<and> st_advantage (compute_return_advantage st) ! 0 ! 0 = 3881 / 2000"
proof -
  obtain st :: "unit storage" where w: "example_window = Inr st" by (simp add: example_window_eq)
  have f: "filled st" using w by (rule example_window_filled)
  have t: "1 < st_num_steps st" and e: "0 < st_num_envs st" and t0: "0 < st_num_steps st"
    using w by (auto simp: example_window_eq)
  have v: "st_reward st ! 1 ! 0 = 1" "st_value st ! 1 ! 0 = 0" "st_done st ! 1 ! 0"
    "st_reward st ! 0 ! 0 = 1" "st_value st ! 0 ! 0 = 0" "st_value st ! Suc 0 ! 0 = 0"
    "\<not> st_done st ! 0 ! 0" "st_gamma st = 99 / 100" "st_lam st = 95 / 100"
    using w by (auto simp: example_window_eq)
  from done_isolates_advantage [where 'a = unit] f t e v(3)
  have a1: "st_advantage (compute_return_advantage st) ! 1 ! 0
           = st_delta (compute_return_advantage st) ! 1 ! 0"
    and a2: "st_advantage (compute_return_advantage st) ! 1 ! 0
           = st_reward st ! 1 ! 0 - st_value st ! 1 ! 0"
    by blast+
  from a2 v have one: "st_advantage (compute_return_advantage st) ! 1 ! 0 = 1" by simp
  from compute_advantage [OF f t0 e] compute_delta [OF f t0 e] t v one
  have "st_advantage (compute_return_advantage st) ! 0 ! 0 = 3881 / 2000"
    by (simp add: not_done_def)
  with w f v(3) a1 one show ?thesis by blast
qed

subsection \<open>Minibatches\<close>

declare chunks.simps [simp del]

lemma chunks_Nil [simp]: "chunks b [] = []"
  by (simp add: chunks.simps)

lemma chunks_step:
  "0 < b \<Longrightarrow> xs \<noteq> [] \<Longrightarrow> chunks b xs = take b xs # chunks b (drop b xs)"
  by (subst chunks.simps) simp

lemma concat_chunks: "0 < b \<Longrightarrow> concat (chunks b xs) = xs"
proof (induction "length xs" arbitrary: xs rule: less_induct)
  case less
  show ?case
  proof (cases "xs = []")
    case True
    then show ?thesis by simp
  next
    case False
    with less.prems have "length (drop b xs) < length xs" by simp
    from less.hyps [OF this less.prems] False less.prems show ?thesis
      by (simp add: chunks_step)
  qed
qed

lemma chunks_sizes:
  "0 < b \<Longrightarrow> c \<in> set (chunks b xs) \<Longrightarrow> c \<noteq> [] \<and> length c \<le> b"
proof (induction "length xs" arbitrary: xs rule: less_induct)
  case less
  show ?case
  proof (cases "xs = []")
    case True
    with less.prems show ?thesis by simp
  next
    case False
    with less.prems have l: "length (drop b xs) < length xs" by simp
    from less.prems False have "c = take b xs \<or> c \<in> set (chunks b (drop b xs))"
      by (simp add: chunks_step)
    then show ?thesis
    proof
      assume "c = take b xs"
      with False less.prems show ?thesis by simp
    next
      assume "c \<in> set (chunks b (drop b xs))"
      with less.hyps [OF l less.prems(1)] show ?thesis .
    qed
  qed
qed

lemma chunks_full:
  "0 < b \<Longrightarrow> Suc i < length (chunks b xs) \<Longrightarrow> length (chunks b xs ! i) = b"
proof (induction "length xs" arbitrary: xs i rule: less_induct)
  case less
  show ?case
  proof (cases "xs = []")
    case True
    with less.prems show ?thesis by simp
  next
    case False
    with less.prems have l: "length (drop b xs) < length xs" by simp
    have e: "chunks b xs = take b xs # chunks b (drop b xs)"
      using less.prems False by (simp add: chunks_step)
    show ?thesis
    proof (cases i)
      case 0
      with less.prems e have "chunks b (drop b xs) \<noteq> []" by auto
      then have "drop b xs \<noteq> []" by auto
      then have "b < length xs" by simp
      with 0 e show ?thesis by simp
    next
      case (Suc j)
      with less.prems e have "Suc j < length (chunks b (drop b xs))" by simp
      from less.hyps [OF l less.prems(1) this] Suc e show ?thesis by simp
    qed
  qed
qed


lemma gen_minibatch_update:
  "filter is_get_generator (trace (minibatch_update c b s)) = filter is_get_generator (trace s)"
  by (simp add: minibatch_update_def Let_def case_prod_beta)

lemma gen_fold:
  "filter is_get_generator (trace (fold (minibatch_update c) bs s)) = filter is_get_generator (trace s)"
  by (induction bs arbitrary: s) (simp_all add: gen_minibatch_update)

lemma gen_epoch:
  "filter is_get_generator (trace (epoch c h s))
     = filter is_get_generator (trace s) @ [GetGenerator (batch_size h)]"
  by (simp add: epoch_def Let_def case_prod_beta gen_fold)

lemma gen_epochs:
  "filter is_get_generator (trace ((epoch c h ^^ n) s))
     = filter is_get_generator (trace s) @ replicate n (GetGenerator (batch_size h))"
  by (induction n) (simp_all add: gen_epoch replicate_append_same)

lemma gen_optimize:
  "filter is_get_generator (trace (optimize c h s))
     = filter is_get_generator (trace s)
       @ replicate (nat (num_epochs h)) (GetGenerator (batch_size h))"
  by (simp add: optimize_def gen_epochs)

text \<open>
  Claim C3. For every batch size of at least 1 and every source of permutations, one
  call of \<open>get_generator\<close> over the \<open>N = num_steps * num_envs\<close> flattened indices of
  the window yields a finite list of minibatches which, read in order, are the
  permutation drawn by this call: every index occurs exactly once, the batches are not
  empty, all but the last have \<open>batch_size\<close> indices and the last at most that many.
  Each call draws anew and leaves the state of the random source behind the draw. The
  update phase of \<open>train_model\<close> asks the store for a generator once in each of the
  \<open>num_epochs\<close> epochs.
\<close>

theorem generator_partitions:
  assumes "1 \<le> b" and "\<forall>n g. mset (fst (randperm n g)) = mset [0..<n]"
  shows "concat (fst (get_generator randperm b st g))
           = fst (randperm (st_num_steps st * st_num_envs st) g)
       \<and> snd (get_generator randperm b st g) = snd (randperm (st_num_steps st * st_num_envs st) g)
       \<and> mset (concat (fst (get_generator randperm b st g)))
           = mset [0..<st_num_steps st * st_num_envs st]
       \<and> distinct (concat (fst (get_generator randperm b st g)))
       \<and> set (concat (fst (get_generator randperm b st g))) = {0..<st_num_steps st * st_num_envs st}
       \<and> sum_list (map length (fst (get_generator randperm b st g)))
           = st_num_steps st * st_num_envs st
       \<and> (\<forall>c \<in> set (fst (get_generator randperm b st g)). c \<noteq> [] \<and> length c \<le> b)
       \<and> (\<forall>i. Suc i < length (fst (get_generator randperm b st g)) \<longrightarrow>
              length (fst (get_generator randperm b st g) ! i) = b)
       \<and> filter is_get_generator (trace (optimize c h s))
           = filter is_get_generator (trace s)
             @ replicate (nat (num_epochs h)) (GetGenerator (batch_size h))"
proof -
  let ?N = "st_num_steps st * st_num_envs st"
  let ?p = "fst (randperm ?N g)"
  let ?bs = "fst (get_generator randperm b st g)"
  have b: "0 < b" using assms(1) by simp
  have bs: "?bs = chunks b ?p" by (simp add: get_generator_def case_prod_beta)
  have g': "snd (get_generator randperm b st g) = snd (randperm ?N g)"
    by (simp add: get_generator_def case_prod_beta)
  have c: "concat ?bs = ?p" unfolding bs using b by (rule concat_chunks)
  have m: "mset ?p = mset [0..<?N]" using assms(2) by simp
  have d: "distinct ?p" using m by (metis distinct_upt mset_eq_imp_distinct_iff)
  have s: "set ?p = {0..<?N}" using m by (metis mset_eq_setD set_upt)
  have "length (concat ?bs) = ?N" unfolding c using m by (metis length_upt mset_eq_length minus_nat.diff_0)
  then have l: "sum_list (map length ?bs) = ?N" by (simp add: length_concat)
  have z: "\<forall>c \<in> set ?bs. c \<noteq> [] \<and> length c \<le> b"
    unfolding bs using b chunks_sizes by blast
  have f: "\<forall>i. Suc i < length ?bs \<longrightarrow> length (?bs ! i) = b"
    unfolding bs using b chunks_full by blast
  show ?thesis
    using c g' m d s l z f gen_optimize [of c h s] by (simp only: simp_thms)
qed

theorem generator_partitions_witness:
  "fst (get_generator demo_randperm 2 (new_storage () 3 1 (99 / 100) (95 / 100)) 0) = [[2, 1], [0]]
     \<and> snd (get_generator demo_randperm 2 (new_storage () 3 1 (99 / 100) (95 / 100)) 0) = 1
     \<and> set (concat (fst (get_generator demo_randperm 2 (new_storage () 3 1 (99 / 100) (95 / 100)) 0)))
         = {0..<3}
     \<and> distinct (concat (fst (get_generator demo_randperm 2 (new_storage () 3 1 (99 / 100) (95 / 100)) 0)))"
proof -
  let ?st = "new_storage () 3 1 (99 / 100) (95 / 100)"
  have a: "1 \<le> (2::nat)" by simp
  have r: "\<forall>n g. mset (fst (demo_randperm n g)) = mset [0..<n]"
    by (simp add: demo_randperm_def)
  have n: "st_num_steps ?st * st_num_envs ?st = 3" by (simp add: new_storage_def)
  from generator_partitions [OF a r, of ?st 0 demo_collab demo_hyper demo_state]
  have "set (concat (fst (get_generator demo_randperm 2 ?st 0))) = {0..<3}"
    and "distinct (concat (fst (get_generator demo_randperm 2 ?st 0)))"
    unfolding n by blast+
  moreover have "get_generator demo_randperm 2 ?st 0 = ([[2, 1], [0]], 1)"
    by (simp add: get_generator_def demo_randperm_def new_storage_def chunks.simps
          upt_rec numeral_2_eq_2)
  ultimately show ?thesis by auto
qed

subsection \<open>The calls of one iteration\<close>

lemma eval_step_trace:
  "\<exists>ev. e_trace (eval_step c ee video s) = e_trace s @ ev
        \<and> set ev \<subseteq> range EvalModelAct \<union> range EvalEnvStep \<union> {Render}"
  by (cases video) (simp_all add: eval_step_def Let_def case_prod_beta)

lemma eval_loop_trace:
  "\<exists>ev. e_trace ((eval_step c ee video ^^ n) s) = e_trace s @ ev
        \<and> set ev \<subseteq> range EvalModelAct \<union> range EvalEnvStep \<union> {Render}"
proof (induction n)
  case 0
  show ?case by simp
next
  case (Suc n)
  then obtain ev where a: "e_trace ((eval_step c ee video ^^ n) s) = e_trace s @ ev"
    and b: "set ev \<subseteq> range EvalModelAct \<union> range EvalEnvStep \<union> {Render}"
    by blast
  from eval_step_trace [of c ee video "(eval_step c ee video ^^ n) s"]
  obtain ev' where c: "e_trace (eval_step c ee video ((eval_step c ee video ^^ n) s))
                        = e_trace ((eval_step c ee video ^^ n) s) @ ev'"
    and d: "set ev' \<subseteq> range EvalModelAct \<union> range EvalEnvStep \<union> {Render}"
    by blast
  have "e_trace ((eval_step c ee video ^^ Suc n) s) = e_trace s @ (ev @ ev')"
    using a c by simp
  moreover have "set (ev @ ev') \<subseteq> range EvalModelAct \<union> range EvalEnvStep \<union> {Render}"
    using b d by simp
  ultimately show ?case by blast
qed

lemma eval_run_trace:
  "set (e_trace (eval_run c ee ob n video w))
     \<subseteq> range EvalModelAct \<union> range EvalEnvStep \<union> range SaveVideo \<union> {Render, EvalModelEval}"
proof -
  let ?s0 = "\<lparr>e_world = model_eval c w, e_obs = ob, e_total_reward = [], e_frames = [],
              e_trace = [EvalModelEval]\<rparr>"
  from eval_loop_trace [where c = c and ee = ee and video = video and n = "nat n" and s = ?s0]
  obtain ev where a: "e_trace ((eval_step c ee video ^^ nat n) ?s0) = [EvalModelEval] @ ev"
    and b: "set ev \<subseteq> range EvalModelAct \<union> range EvalEnvStep \<union> {Render}"
    by auto
  show ?thesis
  proof (cases video)
    case True
    have "e_trace (eval_run c ee ob n video w)
            = [EvalModelEval] @ ev @ [SaveVideo (e_frames ((eval_step c ee video ^^ nat n) ?s0))]"
      using True a by (simp add: eval_run_def Let_def)
    with b show ?thesis by auto
  next
    case False
    have "e_trace (eval_run c ee ob n video w) = [EvalModelEval] @ ev"
      using False a by (simp add: eval_run_def Let_def)
    with b show ?thesis by auto
  qed
qed

lemma evaluate_model_trace:
  assumes "evaluate_model c ee ob n video w = Inr (r, w', tr)"
  shows "set tr \<subseteq> range EvalModelAct \<union> range EvalEnvStep \<union> range SaveVideo \<union> {Render, EvalModelEval}"
proof -
  from assms have "tr = e_trace (eval_run c ee ob n video w)"
    by (simp add: evaluate_model_def Let_def split: sum.splits)
  then show ?thesis using eval_run_trace [of c ee ob n video w] by simp
qed

lemma record_stats_trace:
  "obs (record_stats c h s) = obs s
     \<and> (\<exists>ev. trace (record_stats c h s) = trace s @ ev \<and> set ev \<subseteq> {GetReward})"
  by (cases "verbose h") (simp_all add: record_stats_def Let_def case_prod_beta)

lemma update_stats_trace:
  assumes "update_stats c ee h u s = Inr s'"
  shows "obs s' = obs s
       \<and> (\<exists>stats. trace s' = trace s @ stats
            \<and> set stats \<subseteq> range EvalModelAct \<union> range EvalEnvStep \<union> range SaveVideo
                           \<union> {Render, EvalModelEval, GetReward})"
proof (cases "n_updates s mod u = 0")
  case False
  with assms have "s' = s" by (simp add: update_stats_def split: if_splits)
  then show ?thesis by simp
next
  case True
  from assms have u: "u \<noteq> 0" by (auto simp: update_stats_def)
  define s2 where "s2 = record_stats c h s"
  from record_stats_trace [of c h s]
  obtain ev where o2: "obs s2 = obs s" and ev: "trace s2 = trace s @ ev" "set ev \<subseteq> {GetReward}"
    unfolding s2_def by blast
  show ?thesis
  proof (cases "get_test_error h")
    case False
    with assms True u have "s' = s2"
      by (simp add: update_stats_def Let_def s2_def)
    with o2 ev show ?thesis by auto
  next
    case g: True
    from assms True u g
    have r: "(case evaluate_model c ee (eval_obs s2) (num_steps h) False (world s2) of
                 Inl err \<Rightarrow> Inl err
               | Inr ((test_rew, eo), w3, tr) \<Rightarrow>
                   Inr (s2\<lparr>world := w3, eval_obs := eo,
                           test_rewards := test_rewards s2 @ [test_rew],
                           trace := trace s2 @ tr\<rparr>)) = Inr s'"
      unfolding s2_def by (simp add: update_stats_def Let_def)
    then obtain test_rew eo w3 tr
      where ev2: "evaluate_model c ee (eval_obs s2) (num_steps h) False (world s2)
                    = Inr ((test_rew, eo), w3, tr)"
        and s': "s' = s2\<lparr>world := w3, eval_obs := eo,
                           test_rewards := test_rewards s2 @ [test_rew],
                           trace := trace s2 @ tr\<rparr>"
      by (cases "evaluate_model c ee (eval_obs s2) (num_steps h) False (world s2)") auto
    from evaluate_model_trace [OF ev2]
    have tr: "set tr \<subseteq> range EvalModelAct \<union> range EvalEnvStep \<union> range SaveVideo \<union> {Render, EvalModelEval}" .
    have "trace s' = trace s @ (ev @ tr)" using s' ev by simp
    moreover have "set (ev @ tr) \<subseteq> range EvalModelAct \<union> range EvalEnvStep \<union> range SaveVideo
                           \<union> {Render, EvalModelEval, GetReward}"
      using ev(2) tr by auto
    moreover have "obs s' = obs s" using s' o2 by simp
    ultimately show ?thesis by blast
  qed
qed

lemma collect_step_calls:
  "\<exists>a l v0 w1 r d i w2.
      model_act c (obs s) (world s) = ((a, l, v0), w1)
    \<and> env_step e a w1 = ((obs (collect_step c e s), r, d, i), w2)
    \<and> trace (collect_step c e s)
        = trace s @ [ModelAct (obs s), EnvStep a, StorageStore (obs s) a r d i l v0]"
proof -
  obtain a l v0 w1 where m: "model_act c (obs s) (world s) = ((a, l, v0), w1)"
    by (metis surj_pair)
  obtain ob r d i w2 where n: "env_step e a w1 = ((ob, r, d, i), w2)"
    by (metis surj_pair)
  have "obs (collect_step c e s) = ob"
    and "trace (collect_step c e s)
        = trace s @ [ModelAct (obs s), EnvStep a, StorageStore (obs s) a r d i l v0]"
    by (simp_all add: collect_step_def m n)
  with m n show ?thesis by blast
qed

lemma collect_loop_calls:
  "\<exists>roll. trace ((collect_step c e ^^ n) s) = trace s @ roll
        \<and> length (filter is_store roll) = n \<and> length (filter is_env_step roll) = n
        \<and> filter is_store_last roll = []"
proof (induction n)
  case 0
  show ?case by simp
next
  case (Suc n)
  let ?sp = "(collect_step c e ^^ n) s"
  from Suc obtain roll where a: "trace ?sp = trace s @ roll"
    and b: "length (filter is_store roll) = n" "length (filter is_env_step roll) = n"
      "filter is_store_last roll = []"
    by blast
  from collect_step_calls [of c ?sp e]
  obtain ev where c: "trace (collect_step c e ?sp) = trace ?sp @ ev"
    and d: "length (filter is_store ev) = 1" "length (filter is_env_step ev) = 1"
      "filter is_store_last ev = []"
    by fastforce
  have "trace ((collect_step c e ^^ Suc n) s) = trace s @ (roll @ ev)"
    using a c by simp
  moreover have "length (filter is_store (roll @ ev)) = Suc n"
    "length (filter is_env_step (roll @ ev)) = Suc n" "filter is_store_last (roll @ ev) = []"
    using b d by simp_all
  ultimately show ?case by blast
qed

lemma bootstrap_calls:
  "\<exists>a l v w. model_act c (obs s) (world s) = ((a, l, v), w)
      \<and> trace (bootstrap c s) = trace s @ [ModelAct (obs s), StoreLast (obs s) v, ComputeReturnAdvantage]"
proof -
  obtain a l v w where m: "model_act c (obs s) (world s) = ((a, l, v), w)"
    by (metis surj_pair)
  then have "trace (bootstrap c s)
               = trace s @ [ModelAct (obs s), StoreLast (obs s) v, ComputeReturnAdvantage]"
    by (simp add: bootstrap_def)
  with m show ?thesis by blast
qed

lemma minibatch_update_calls:
  "\<exists>ev. trace (minibatch_update c b s) = trace s @ ev
       \<and> (\<forall>x \<in> set ev. \<not> is_store x \<and> \<not> is_store_last x \<and> \<not> is_env_step x)"
  by (simp add: minibatch_update_def Let_def case_prod_beta)

lemma fold_minibatch_calls:
  "\<exists>ev. trace (fold (minibatch_update c) bs s) = trace s @ ev
       \<and> (\<forall>x \<in> set ev. \<not> is_store x \<and> \<not> is_store_last x \<and> \<not> is_env_step x)"
proof (induction bs arbitrary: s)
  case Nil
  show ?case by simp
next
  case (Cons b bs)
  from minibatch_update_calls [of c b s]
  obtain ev where a: "trace (minibatch_update c b s) = trace s @ ev"
    and b: "\<forall>x \<in> set ev. \<not> is_store x \<and> \<not> is_store_last x \<and> \<not> is_env_step x"
    by blast
  from Cons [of "minibatch_update c b s"]
  obtain ev' where c: "trace (fold (minibatch_update c) bs (minibatch_update c b s))
                         = trace (minibatch_update c b s) @ ev'"
    and d: "\<forall>x \<in> set ev'. \<not> is_store x \<and> \<not> is_store_last x \<and> \<not> is_env_step x"
    by blast
  have "trace (fold (minibatch_update c) (b # bs) s) = trace s @ (ev @ ev')"
    using a c by simp
  moreover have "\<forall>x \<in> set (ev @ ev'). \<not> is_store x \<and> \<not> is_store_last x \<and> \<not> is_env_step x"
    using b d by auto
  ultimately show ?case by blast
qed

lemma epoch_calls:
  "\<exists>ev. trace (epoch c h s) = trace s @ ev
       \<and> (\<forall>x \<in> set ev. \<not> is_store x \<and> \<not> is_store_last x \<and> \<not> is_env_step x)"
proof -
  let ?s1 = "s\<lparr>world := snd (storage_get_generator c (batch_size h) (world s)),
                trace := trace s @ [GetGenerator (batch_size h)]\<rparr>"
  from fold_minibatch_calls [of c "fst (storage_get_generator c (batch_size h) (world s))" ?s1]
  obtain ev where a: "trace (fold (minibatch_update c)
                        (fst (storage_get_generator c (batch_size h) (world s))) ?s1)
                      = trace ?s1 @ ev"
    and b: "\<forall>x \<in> set ev. \<not> is_store x \<and> \<not> is_store_last x \<and> \<not> is_env_step x"
    by blast
  have "trace (epoch c h s) = trace s @ (GetGenerator (batch_size h) # ev)"
    using a by (simp add: epoch_def Let_def case_prod_beta)
  moreover have "\<forall>x \<in> set (GetGenerator (batch_size h) # ev).
                   \<not> is_store x \<and> \<not> is_store_last x \<and> \<not> is_env_step x"
    using b by simp
  ultimately show ?thesis by blast
qed

lemma epochs_calls:
  "\<exists>ev. trace ((epoch c h ^^ n) s) = trace s @ ev
       \<and> (\<forall>x \<in> set ev. \<not> is_store x \<and> \<not> is_store_last x \<and> \<not> is_env_step x)"
proof (induction n)
  case 0
  show ?case by simp
next
  case (Suc n)
  then obtain ev where a: "trace ((epoch c h ^^ n) s) = trace s @ ev"
    and b: "\<forall>x \<in> set ev. \<not> is_store x \<and> \<not> is_store_last x \<and> \<not> is_env_step x"
    by blast
  from epoch_calls [of c h "(epoch c h ^^ n) s"]
  obtain ev' where c: "trace (epoch c h ((epoch c h ^^ n) s)) = trace ((epoch c h ^^ n) s) @ ev'"
    and d: "\<forall>x \<in> set ev'. \<not> is_store x \<and> \<not> is_store_last x \<and> \<not> is_env_step x"
    by blast
  have "trace ((epoch c h ^^ Suc n) s) = trace s @ (ev @ ev')"
    using a c by simp
  moreover have "\<forall>x \<in> set (ev @ ev'). \<not> is_store x \<and> \<not> is_store_last x \<and> \<not> is_env_step x"
    using b d by auto
  ultimately show ?case by blast
qed

lemma optimize_calls:
  "\<exists>ev. trace (optimize c h s) = trace s @ ev
       \<and> (\<forall>x \<in> set ev. \<not> is_store x \<and> \<not> is_store_last x \<and> \<not> is_env_step x)"
proof -
  let ?s1 = "s\<lparr>world := model_train c (world s), trace := trace s @ [ModelTrain]\<rparr>"
  from epochs_calls [where c = c and h = h and n = "nat (num_epochs h)" and s = ?s1]
  obtain ev where a: "trace ((epoch c h ^^ nat (num_epochs h)) ?s1) = trace ?s1 @ ev"
    and b: "\<forall>x \<in> set ev. \<not> is_store x \<and> \<not> is_store_last x \<and> \<not> is_env_step x"
    by blast
  have "trace (optimize c h s) = trace s @ (ModelTrain # ev)"
    using a by (simp add: optimize_def)
  moreover have "\<forall>x \<in> set (ModelTrain # ev). \<not> is_store x \<and> \<not> is_store_last x \<and> \<not> is_env_step x"
    using b by simp
  ultimately show ?thesis by blast
qed

text \<open>
  Claim C4. In every iteration of the training loop that reaches its end, the calls
  are, in this order: the rollout with exactly \<open>num_steps\<close> calls of \<open>env.step\<close> and
  of \<open>storage.store\<close> (none for \<open>num_steps \<le> 0\<close>) and no \<open>store_last\<close>; the
  statistics; then one \<open>model.act\<close> on the current observation and one
  \<open>storage.store_last\<close> with that observation and the value this \<open>model.act\<close>
  returned; then the update. Neither the statistics nor the update call
  \<open>env.step\<close>, \<open>store\<close> or \<open>store_last\<close>, so the bootstrap action is never
  executed. The observation of the bootstrap is the one \<open>env.step\<close> returned for the
  last stored transition.
\<close>

theorem rollout_then_bootstrap:
  assumes "iteration c e ee h u s = Inr s'"
  shows "\<exists>roll stats upd sx a l v w.
      update_stats c ee h u (collect c e h s) = Inr sx
    \<and> obs sx = obs (collect c e h s)
    \<and> model_act c (obs sx) (world sx) = ((a, l, v), w)
    \<and> trace s' = trace s @ ModelEval # roll @ stats
                   @ [ModelAct (obs sx), StoreLast (obs sx) v, ComputeReturnAdvantage] @ upd
    \<and> length (filter is_store roll) = nat (num_steps h)
    \<and> length (filter is_env_step roll) = nat (num_steps h)
    \<and> filter is_store_last roll = []
    \<and> (\<forall>x \<in> set (stats @ upd). \<not> is_store x \<and> \<not> is_store_last x \<and> \<not> is_env_step x)
    \<and> (1 \<le> num_steps h \<longrightarrow>
         (\<exists>sp pre a0 l0 v0 w1 r d i w2.
             collect c e h s = collect_step c e sp
           \<and> model_act c (obs sp) (world sp) = ((a0, l0, v0), w1)
           \<and> env_step e a0 w1 = ((obs sx, r, d, i), w2)
           \<and> roll = pre @ [ModelAct (obs sp), EnvStep a0,
                            StorageStore (obs sp) a0 r d i l0 v0]))"
proof -
  let ?s1 = "s\<lparr>world := model_eval c (world s), trace := trace s @ [ModelEval]\<rparr>"
  let ?n = "nat (num_steps h)"
  have col: "collect c e h s = (collect_step c e ^^ ?n) ?s1" by (simp add: collect_def)
  from assms obtain sx where us: "update_stats c ee h u (collect c e h s) = Inr sx"
    and s': "s' = (optimize c h (bootstrap c (sx\<lparr>step := step sx + num_envs e * num_steps h\<rparr>)))
                    \<lparr>n_updates := n_updates (optimize c h
                        (bootstrap c (sx\<lparr>step := step sx + num_envs e * num_steps h\<rparr>))) + 1\<rparr>"
    by (cases "update_stats c ee h u (collect c e h s)") (auto simp: iteration_def Let_def)
  let ?s2 = "sx\<lparr>step := step sx + num_envs e * num_steps h\<rparr>"
  from collect_loop_calls [where c = c and e = e and n = ?n and s = ?s1]
  obtain roll where r1: "trace (collect c e h s) = trace s @ ModelEval # roll"
    and r2: "length (filter is_store roll) = ?n" "length (filter is_env_step roll) = ?n"
      "filter is_store_last roll = []"
    unfolding col by auto
  from update_stats_trace [OF us]
  obtain stats where o: "obs sx = obs (collect c e h s)"
    and t1: "trace sx = trace (collect c e h s) @ stats"
    and t2: "set stats \<subseteq> range EvalModelAct \<union> range EvalEnvStep \<union> range SaveVideo
                           \<union> {Render, EvalModelEval, GetReward}"
    by blast
  have t2': "\<forall>x \<in> set stats. \<not> is_store x \<and> \<not> is_store_last x \<and> \<not> is_env_step x"
    using t2 by auto
  from bootstrap_calls [of c ?s2]
  obtain a l v w where m: "model_act c (obs sx) (world sx) = ((a, l, v), w)"
    and b: "trace (bootstrap c ?s2)
              = trace sx @ [ModelAct (obs sx), StoreLast (obs sx) v, ComputeReturnAdvantage]"
    by auto
  from optimize_calls [of c h "bootstrap c ?s2"]
  obtain upd where p1: "trace (optimize c h (bootstrap c ?s2)) = trace (bootstrap c ?s2) @ upd"
    and p2: "\<forall>x \<in> set upd. \<not> is_store x \<and> \<not> is_store_last x \<and> \<not> is_env_step x"
    by blast
  have tr: "trace s' = trace s @ ModelEval # roll @ stats
                   @ [ModelAct (obs sx), StoreLast (obs sx) v, ComputeReturnAdvantage] @ upd"
    using s' p1 b t1 r1 by simp
  have no: "\<forall>x \<in> set (stats @ upd). \<not> is_store x \<and> \<not> is_store_last x \<and> \<not> is_env_step x"
    using t2' p2 by auto
  have last: "\<exists>sp pre a0 l0 v0 w1 r d i w2.
             collect c e h s = collect_step c e sp
           \<and> model_act c (obs sp) (world sp) = ((a0, l0, v0), w1)
           \<and> env_step e a0 w1 = ((obs sx, r, d, i), w2)
           \<and> roll = pre @ [ModelAct (obs sp), EnvStep a0,
                            StorageStore (obs sp) a0 r d i l0 v0]"
    if "1 \<le> num_steps h"
  proof -
    from that obtain k where k: "?n = Suc k" by (cases ?n) auto
    let ?sp = "(collect_step c e ^^ k) ?s1"
    have cs: "collect c e h s = collect_step c e ?sp" by (simp add: col k)
    from collect_loop_calls [where c = c and e = e and n = k and s = ?s1]
    obtain pre where pr: "trace ?sp = trace s @ ModelEval # pre" by auto
    from collect_step_calls [of c ?sp e]
    obtain a0 l0 v0 w1 r d i w2 where
      x: "model_act c (obs ?sp) (world ?sp) = ((a0, l0, v0), w1)"
      and y: "env_step e a0 w1 = ((obs (collect_step c e ?sp), r, d, i), w2)"
      and z: "trace (collect_step c e ?sp)
                = trace ?sp @ [ModelAct (obs ?sp), EnvStep a0,
                                StorageStore (obs ?sp) a0 r d i l0 v0]"
      by blast
    from y cs o have y': "env_step e a0 w1 = ((obs sx, r, d, i), w2)" by simp
    from z pr cs r1 have "roll = pre @ [ModelAct (obs ?sp), EnvStep a0,
                                StorageStore (obs ?sp) a0 r d i l0 v0]"
      by simp
    with cs x y' show ?thesis by blast
  qed
  from us o m tr r2 no last show ?thesis by blast
qed


theorem rollout_then_bootstrap_witness:
  "\<exists>s'. iteration demo_collab demo_env demo_env demo_hyper 1 demo_state = Inr s'
       \<and> length (filter is_store (trace s')) = 4
       \<and> length (filter is_env_step (trace s')) = 4
       \<and> length (filter is_store_last (trace s')) = 1"
proof -
  have u: "(1::int) \<noteq> 0" by simp
  have g: "get_test_error demo_hyper \<longrightarrow> 1 \<le> num_steps demo_hyper"
    by (simp add: demo_hyper_def)
  from iteration_ok [OF u g, of demo_collab demo_env demo_env demo_state]
  obtain s' where it: "iteration demo_collab demo_env demo_env demo_hyper 1 demo_state = Inr s'"
    by blast
  from rollout_then_bootstrap [OF it]
  obtain roll stats upd and sx :: "(nat, nat) tstate" and v where
    tr: "trace s' = trace demo_state @ ModelEval # roll @ stats
                   @ [ModelAct (obs sx), StoreLast (obs sx) v, ComputeReturnAdvantage] @ upd"
    and r: "length (filter is_store roll) = nat (num_steps demo_hyper)"
      "length (filter is_env_step roll) = nat (num_steps demo_hyper)"
      "filter is_store_last roll = []"
    and no: "\<forall>x \<in> set (stats @ upd). \<not> is_store x \<and> \<not> is_store_last x \<and> \<not> is_env_step x"
    by blast
  from no have f: "filter is_store stats = []" "filter is_store upd = []"
    "filter is_env_step stats = []" "filter is_env_step upd = []"
    "filter is_store_last stats = []" "filter is_store_last upd = []"
    by (simp_all add: filter_empty_conv)
  have n: "nat (num_steps demo_hyper) = 4" and t0: "trace demo_state = []"
    by (simp_all add: demo_hyper_def demo_state_def)
  from tr r f n t0 have "length (filter is_store (trace s')) = 4"
    "length (filter is_env_step (trace s')) = 4" "length (filter is_store_last (trace s')) = 1"
    by simp_all
  with it show ?thesis by blast
qed

section \<open>Properties of \<open>evaluate_model\<close>\<close>

subsection \<open>The sum of the stacked rewards\<close>

lemma tensor_add_cell:
  "length a = N \<Longrightarrow> length b = N \<Longrightarrow>
     length (tensor_add a b) = N \<and> (\<forall>i < N. tensor_add a b ! i = a ! i + b ! i)"
  by (simp add: tensor_add_def)

lemma foldl_tensor_add:
  "length acc = N \<Longrightarrow> \<forall>t \<in> set ts. length t = N \<Longrightarrow>
     length (foldl tensor_add acc ts) = N
   \<and> (\<forall>i < N. foldl tensor_add acc ts ! i = acc ! i + sum_list (map (\<lambda>t. t ! i) ts))"
proof (induction ts arbitrary: acc)
  case Nil
  then show ?case by simp
next
  case (Cons t ts)
  from Cons.prems have lt: "length t = N" by simp
  from tensor_add_cell [OF Cons.prems(1) lt]
  have l: "length (tensor_add acc t) = N"
    and c: "\<forall>i < N. tensor_add acc t ! i = acc ! i + t ! i"
    by simp_all
  from Cons.prems have "\<forall>t \<in> set ts. length t = N" by simp
  from Cons.IH [OF l this] c show ?case by (simp add: add.assoc)
qed

lemma sum0_cell:
  assumes "ts \<noteq> []" and "\<forall>t \<in> set ts. length t = N"
  shows "length (sum0 ts) = N \<and> (\<forall>i < N. sum0 ts ! i = sum_list (map (\<lambda>t. t ! i) ts))"
proof -
  from assms(1) obtain t ts' where e: "ts = t # ts'" by (cases ts) auto
  with assms(2) have "length t = N" "\<forall>t \<in> set ts'. length t = N" by simp_all
  from foldl_tensor_add [OF this] e show ?thesis by (simp add: sum0_def)
qed

subsection \<open>The evaluation loop\<close>

lemma eval_step_calls:
  "\<exists>a l v w1 r d i w2.
      model_act c (e_obs s) (e_world s) = ((a, l, v), w1)
    \<and> env_step ee a w1 = ((e_obs (eval_step c ee video s), r, d, i), w2)
    \<and> e_total_reward (eval_step c ee video s) = e_total_reward s @ [r]
    \<and> e_world (eval_step c ee video s) = (if video then snd (env_render ee w2) else w2)"
proof -
  obtain a l v w1 where m: "model_act c (e_obs s) (e_world s) = ((a, l, v), w1)"
    by (metis surj_pair)
  obtain ob r d i w2 where n: "env_step ee a w1 = ((ob, r, d, i), w2)"
    by (metis surj_pair)
  have "e_obs (eval_step c ee video s) = ob"
    and "e_total_reward (eval_step c ee video s) = e_total_reward s @ [r]"
    and "e_world (eval_step c ee video s) = (if video then snd (env_render ee w2) else w2)"
    by (simp_all add: eval_step_def m n Let_def case_prod_beta)
  with m n show ?thesis by blast
qed

lemma eval_step_shape:
  assumes "\<forall>a w. length (fst (snd (fst (env_step ee a w)))) = N"
    and "\<forall>r \<in> set (e_total_reward s). length r = N"
  shows "\<forall>r \<in> set (e_total_reward (eval_step c ee video s)). length r = N"
proof -
  from eval_step_calls [of c s ee video]
  obtain a w1 ob r d i w2 where n: "env_step ee a w1 = ((ob, r, d, i), w2)"
    and t: "e_total_reward (eval_step c ee video s) = e_total_reward s @ [r]"
    by blast
  from assms(1) have "length (fst (snd (fst (env_step ee a w1)))) = N" by blast
  with n have "length r = N" by simp
  with assms(2) t show ?thesis by simp
qed

lemma eval_loop_shape:
  assumes "\<forall>a w. length (fst (snd (fst (env_step ee a w)))) = N"
    and "\<forall>r \<in> set (e_total_reward s). length r = N"
  shows "\<forall>r \<in> set (e_total_reward ((eval_step c ee video ^^ n) s)). length r = N"
proof (induction n)
  case 0
  with assms(2) show ?case by simp
next
  case (Suc n)
  from eval_step_shape [OF assms(1) Suc] show ?case by simp
qed

lemma eval_run_shape:
  assumes "\<forall>a w. length (fst (snd (fst (env_step ee a w)))) = N"
  shows "\<forall>r \<in> set (e_total_reward (eval_run c ee ob n video w)). length r = N"
proof -
  let ?s0 = "\<lparr>e_world = model_eval c w, e_obs = ob, e_total_reward = [], e_frames = [],
              e_trace = [EvalModelEval]\<rparr>"
  have "\<forall>r \<in> set (e_total_reward ?s0). length r = N" by simp
  from eval_loop_shape [OF assms this, where c = c and video = video and n = "nat n"]
  show ?thesis by (cases video) (simp_all add: eval_run_def Let_def)
qed

subsection \<open>What the evaluation leaves unchanged\<close>

lemma eval_step_frame:
  assumes "\<forall>ob w. f (snd (model_act c ob w)) = f w"
    and "\<forall>a w. f (snd (env_step ee a w)) = f w"
    and "\<forall>w. f (snd (env_render ee w)) = f w"
  shows "f (e_world (eval_step c ee video s)) = f (e_world s)"
proof -
  from eval_step_calls [of c s ee video]
  obtain a l v w1 r d i w2 where m: "model_act c (e_obs s) (e_world s) = ((a, l, v), w1)"
    and n: "env_step ee a w1 = ((e_obs (eval_step c ee video s), r, d, i), w2)"
    and w: "e_world (eval_step c ee video s) = (if video then snd (env_render ee w2) else w2)"
    by blast
  from assms(1) have "f (snd (model_act c (e_obs s) (e_world s))) = f (e_world s)" by blast
  with m have a: "f w1 = f (e_world s)" by simp
  from assms(2) have "f (snd (env_step ee a w1)) = f w1" by blast
  with n have b: "f w2 = f w1" by simp
  from assms(3) have c: "f (snd (env_render ee w2)) = f w2" by blast
  from w a b c show ?thesis by simp
qed

lemma eval_run_frame:
  assumes "\<forall>w. f (model_eval c w) = f w"
    and "\<forall>ob w. f (snd (model_act c ob w)) = f w"
    and "\<forall>a w. f (snd (env_step ee a w)) = f w"
    and "\<forall>w. f (snd (env_render ee w)) = f w"
    and "\<forall>fs w. f (save_video c fs w) = f w"
  shows "f (e_world (eval_run c ee ob n video w)) = f w"
proof -
  let ?s0 = "\<lparr>e_world = model_eval c w, e_obs = ob, e_total_reward = [], e_frames = [],
              e_trace = [EvalModelEval]\<rparr>"
  have "f (e_world ((eval_step c ee video ^^ k) ?s0)) = f w" for k
  proof (induction k)
    case 0
    from assms(1) show ?case by simp
  next
    case (Suc k)
    from eval_step_frame [OF assms(2,3,4), of video "(eval_step c ee video ^^ k) ?s0"] Suc
    show ?case by simp
  qed
  from this [of "nat n"] assms(5) show ?thesis
    by (cases video) (simp_all add: eval_run_def Let_def)
qed

subsection \<open>Resuming from the returned observation\<close>

lemma eval_step_same:
  assumes "e_obs sa = e_obs sb" and "e_world sa = e_world sb"
  shows "e_obs (eval_step c ee video sa) = e_obs (eval_step c ee video sb)
       \<and> e_world (eval_step c ee video sa) = e_world (eval_step c ee video sb)
       \<and> (\<exists>r. e_total_reward (eval_step c ee video sa) = e_total_reward sa @ [r]
              \<and> e_total_reward (eval_step c ee video sb) = e_total_reward sb @ [r])"
  using assms by (cases video) (simp_all add: eval_step_def Let_def case_prod_beta)

lemma eval_loop_same:
  assumes "e_obs sa = e_obs sb" and "e_world sa = e_world sb"
  shows "e_obs ((eval_step c ee video ^^ n) sa) = e_obs ((eval_step c ee video ^^ n) sb)
       \<and> e_world ((eval_step c ee video ^^ n) sa) = e_world ((eval_step c ee video ^^ n) sb)
       \<and> (\<exists>rs. e_total_reward ((eval_step c ee video ^^ n) sa) = e_total_reward sa @ rs
              \<and> e_total_reward ((eval_step c ee video ^^ n) sb) = e_total_reward sb @ rs)"
proof (induction n)
  case 0
  with assms show ?case by simp
next
  case (Suc n)
  let ?a = "(eval_step c ee video ^^ n) sa" and ?b = "(eval_step c ee video ^^ n) sb"
  from Suc obtain rs where o: "e_obs ?a = e_obs ?b" and w: "e_world ?a = e_world ?b"
    and r: "e_total_reward ?a = e_total_reward sa @ rs" "e_total_reward ?b = e_total_reward sb @ rs"
    by blast
  from eval_step_same [OF o w, of c ee video]
  obtain r' where o': "e_obs (eval_step c ee video ?a) = e_obs (eval_step c ee video ?b)"
    and w': "e_world (eval_step c ee video ?a) = e_world (eval_step c ee video ?b)"
    and r': "e_total_reward (eval_step c ee video ?a) = e_total_reward ?a @ [r']"
      "e_total_reward (eval_step c ee video ?b) = e_total_reward ?b @ [r']"
    by blast
  have "e_total_reward (eval_step c ee video ?a) = e_total_reward sa @ (rs @ [r'])"
    "e_total_reward (eval_step c ee video ?b) = e_total_reward sb @ (rs @ [r'])"
    using r r' by simp_all
  with o' w' show ?case by simp
qed

lemma eval_run_resume:
  assumes "0 \<le> m" and "0 \<le> k"
    and "model_eval c (e_world (eval_run c ee ob m False w)) = e_world (eval_run c ee ob m False w)"
  shows "e_obs (eval_run c ee ob (m + k) False w)
           = e_obs (eval_run c ee (e_obs (eval_run c ee ob m False w)) k False
                      (e_world (eval_run c ee ob m False w)))
       \<and> e_world (eval_run c ee ob (m + k) False w)
           = e_world (eval_run c ee (e_obs (eval_run c ee ob m False w)) k False
                      (e_world (eval_run c ee ob m False w)))
       \<and> e_total_reward (eval_run c ee ob (m + k) False w)
           = e_total_reward (eval_run c ee ob m False w)
             @ e_total_reward (eval_run c ee (e_obs (eval_run c ee ob m False w)) k False
                      (e_world (eval_run c ee ob m False w)))"
proof -
  let ?s0 = "\<lparr>e_world = model_eval c w, e_obs = ob, e_total_reward = [], e_frames = [],
              e_trace = [EvalModelEval]\<rparr>"
  let ?s1 = "(eval_step c ee False ^^ nat m) ?s0"
  let ?t0 = "\<lparr>e_world = e_world ?s1, e_obs = e_obs ?s1, e_total_reward = [], e_frames = [],
              e_trace = [EvalModelEval]\<rparr>"
  have r1: "eval_run c ee ob m False w = ?s1" by (simp add: eval_run_def)
  have "nat (m + k) = nat k + nat m" using assms(1,2) by simp
  then have r12: "eval_run c ee ob (m + k) False w = (eval_step c ee False ^^ nat k) ?s1"
    by (simp add: eval_run_def funpow_add)
  have r2: "eval_run c ee (e_obs ?s1) k False (e_world ?s1) = (eval_step c ee False ^^ nat k) ?t0"
    using assms(3) by (simp add: eval_run_def r1)
  have "e_obs ?s1 = e_obs ?t0" "e_world ?s1 = e_world ?t0" by simp_all
  from eval_loop_same [OF this, where c = c and ee = ee and video = False and n = "nat k"]
  obtain rs where "e_obs ((eval_step c ee False ^^ nat k) ?s1) = e_obs ((eval_step c ee False ^^ nat k) ?t0)"
    and "e_world ((eval_step c ee False ^^ nat k) ?s1) = e_world ((eval_step c ee False ^^ nat k) ?t0)"
    and "e_total_reward ((eval_step c ee False ^^ nat k) ?s1) = e_total_reward ?s1 @ rs"
    and "e_total_reward ((eval_step c ee False ^^ nat k) ?t0) = e_total_reward ?t0 @ rs"
    by blast
  then show ?thesis unfolding r1 r12 r2 by simp
qed

lemma eval_run_loop:
  "e_obs (eval_run c ee ob n video w)
     = e_obs ((eval_step c ee video ^^ nat n)
          \<lparr>e_world = model_eval c w, e_obs = ob, e_total_reward = [], e_frames = [],
           e_trace = [EvalModelEval]\<rparr>)"
  "e_total_reward (eval_run c ee ob n video w)
     = e_total_reward ((eval_step c ee video ^^ nat n)
          \<lparr>e_world = model_eval c w, e_obs = ob, e_total_reward = [], e_frames = [],
           e_trace = [EvalModelEval]\<rparr>)"
  by (cases video; simp add: eval_run_def Let_def)+

lemma eval_run_last:
  assumes "1 \<le> n"
  shows "\<exists>a l v w1 r d i w2.
      model_act c
        (e_obs ((eval_step c ee video ^^ (nat n - 1))
           \<lparr>e_world = model_eval c w, e_obs = ob, e_total_reward = [], e_frames = [],
            e_trace = [EvalModelEval]\<rparr>))
        (e_world ((eval_step c ee video ^^ (nat n - 1))
           \<lparr>e_world = model_eval c w, e_obs = ob, e_total_reward = [], e_frames = [],
            e_trace = [EvalModelEval]\<rparr>)) = ((a, l, v), w1)
    \<and> env_step ee a w1 = ((e_obs (eval_run c ee ob n video w), r, d, i), w2)
    \<and> last (e_total_reward (eval_run c ee ob n video w)) = r"
proof -
  let ?s0 = "\<lparr>e_world = model_eval c w, e_obs = ob, e_total_reward = [], e_frames = [],
            e_trace = [EvalModelEval]\<rparr>"
  let ?sp = "(eval_step c ee video ^^ (nat n - 1)) ?s0"
  from assms have "nat n = Suc (nat n - 1)" by simp
  then have "(eval_step c ee video ^^ nat n) ?s0 = eval_step c ee video ?sp"
    by (metis funpow.simps(2) o_apply)
  then have e: "e_obs (eval_run c ee ob n video w) = e_obs (eval_step c ee video ?sp)"
    "e_total_reward (eval_run c ee ob n video w) = e_total_reward (eval_step c ee video ?sp)"
    by (simp_all add: eval_run_loop)
  from eval_step_calls [of c ?sp ee video]
  obtain a l v w1 r d i w2 where "model_act c (e_obs ?sp) (e_world ?sp) = ((a, l, v), w1)"
    and "env_step ee a w1 = ((e_obs (eval_step c ee video ?sp), r, d, i), w2)"
    and "e_total_reward (eval_step c ee video ?sp) = e_total_reward ?sp @ [r]"
    by blast
  with e show ?thesis by simp
qed

lemma evaluate_model_resume:
  assumes "1 \<le> n" and "1 \<le> k"
    and "\<forall>a w. length (fst (snd (fst (env_step ee a w)))) = N"
    and "evaluate_model c ee ob n False w = Inr ((tot, ob'), w', tr)"
    and "model_eval c w' = w'"
  shows "\<exists>tot2 tot12 ob2 w2 tr2 tr12.
             evaluate_model c ee ob' k False w' = Inr ((tot2, ob2), w2, tr2)
           \<and> evaluate_model c ee ob (n + k) False w = Inr ((tot12, ob2), w2, tr12)
           \<and> (\<forall>i < N. tot12 ! i = tot ! i + tot2 ! i)"
proof -
  let ?r1 = "eval_run c ee ob n False w"
  let ?r2 = "eval_run c ee ob' k False w'"
  let ?r12 = "eval_run c ee ob (n + k) False w"
  from assms(4) evaluate_model_returns [OF assms(1), of c ee ob False w]
  have t: "tot = sum0 (e_total_reward ?r1)" and o: "ob' = e_obs ?r1" and w: "w' = e_world ?r1"
    by simp_all
  have nk: "1 \<le> n + k" "0 \<le> n" "0 \<le> k" using assms(1,2) by simp_all
  have me: "model_eval c (e_world ?r1) = e_world ?r1" using assms(5) w by simp
  from eval_run_resume [OF nk(2,3) me]
  have c1: "e_obs ?r12 = e_obs ?r2" and c2: "e_world ?r12 = e_world ?r2"
    and c3: "e_total_reward ?r12 = e_total_reward ?r1 @ e_total_reward ?r2"
    unfolding o w by simp_all
  have ne: "e_total_reward ?r1 \<noteq> []" "e_total_reward ?r2 \<noteq> []" "e_total_reward ?r12 \<noteq> []"
    using eval_run_total_reward [of c ee ob n False w]
      eval_run_total_reward [of c ee ob' k False w']
      eval_run_total_reward [of c ee ob "n + k" False w] assms(1,2)
    by auto
  note s1 = sum0_cell [OF ne(1) eval_run_shape [OF assms(3)]]
  note s2 = sum0_cell [OF ne(2) eval_run_shape [OF assms(3)]]
  note s12 = sum0_cell [OF ne(3) eval_run_shape [OF assms(3)]]
  have "\<forall>i < N. sum0 (e_total_reward ?r12) ! i
                  = sum0 (e_total_reward ?r1) ! i + sum0 (e_total_reward ?r2) ! i"
    using s1 s2 s12 by (simp add: c3)
  then have "\<forall>i < N. sum0 (e_total_reward ?r12) ! i
                  = tot ! i + sum0 (e_total_reward ?r2) ! i"
    using t by simp
  with evaluate_model_returns [OF assms(2), of c ee ob' False w']
    evaluate_model_returns [OF nk(1), of c ee ob False w] c1 c2
  show ?thesis by simp
qed

text \<open>
  Claim C6 is stated for every call. With \<open>num_steps = 0\<close> the loop does not
  run, \<open>total_reward\<close> stays empty and \<open>torch.stack\<close> raises: no pair is returned.
\<close>

theorem evaluate_model_no_steps:
  "evaluate_model demo_collab demo_env 0 0 False 0 = Inl RuntimeError"
  by (simp add: evaluate_model_def eval_run_def torch_stack_def)

text \<open>
  Claim C6, amended. For every call with \<open>num_steps \<ge> 1\<close>, on an environment whose
  rewards have one entry per instance, \<open>evaluate_model\<close> returns the pair of the
  reward summed over the \<open>num_steps\<close> steps, for each environment instance, and the
  observation that \<open>eval_env.step\<close> returned in the last step. Whatever part \<open>f\<close> of
  the world no collaborator called here changes (\<open>model.eval\<close>, \<open>model.act\<close>,
  \<open>eval_env.step\<close>, \<open>eval_env.render\<close>, \<open>save_video\<close>), such as the policy
  parameters and the optimizer state, is the same after the call. Without video, and
  with \<open>model.eval\<close> changing nothing on a model that is in evaluation mode, a second
  call from the returned observation ends with the observation and the world of one
  call over all the steps, and the two totals add up to the total of that call.
\<close>

theorem evaluate_model_total_and_resume:
  assumes "1 \<le> n"
    and "\<forall>a w. length (fst (snd (fst (env_step ee a w)))) = N"
    and "\<forall>w. f (model_eval c w) = f w"
    and "\<forall>ob w. f (snd (model_act c ob w)) = f w"
    and "\<forall>a w. f (snd (env_step ee a w)) = f w"
    and "\<forall>w. f (snd (env_render ee w)) = f w"
    and "\<forall>fs w. f (save_video c fs w) = f w"
  shows "\<exists>tot ob' w' tr.
      evaluate_model c ee ob n video w = Inr ((tot, ob'), w', tr)
    \<and> length (e_total_reward (eval_run c ee ob n video w)) = nat n
    \<and> length tot = N
    \<and> (\<forall>i < N. tot ! i
          = sum_list (map (\<lambda>r. r ! i) (e_total_reward (eval_run c ee ob n video w))))
    \<and> (\<exists>a l v w1 r d i w2.
          model_act c
            (e_obs ((eval_step c ee video ^^ (nat n - 1))
               \<lparr>e_world = model_eval c w, e_obs = ob, e_total_reward = [], e_frames = [],
                e_trace = [EvalModelEval]\<rparr>))
            (e_world ((eval_step c ee video ^^ (nat n - 1))
               \<lparr>e_world = model_eval c w, e_obs = ob, e_total_reward = [], e_frames = [],
                e_trace = [EvalModelEval]\<rparr>)) = ((a, l, v), w1)
        \<and> env_step ee a w1 = ((ob', r, d, i), w2)
        \<and> last (e_total_reward (eval_run c ee ob n video w)) = r)
    \<and> f w' = f w
    \<and> (\<forall>k. 1 \<le> k \<and> \<not> video \<and> model_eval c w' = w' \<longrightarrow>
         (\<exists>tot2 tot12 ob2 w2 tr2 tr12.
             evaluate_model c ee ob' k False w' = Inr ((tot2, ob2), w2, tr2)
           \<and> evaluate_model c ee ob (n + k) False w = Inr ((tot12, ob2), w2, tr12)
           \<and> (\<forall>i < N. tot12 ! i = tot ! i + tot2 ! i)))"
proof -
  let ?r = "eval_run c ee ob n video w"
  note ret = evaluate_model_returns [OF assms(1), of c ee ob video w]
  have len: "length (e_total_reward ?r) = nat n" by (rule eval_run_total_reward)
  then have ne: "e_total_reward ?r \<noteq> []" using assms(1) by auto
  note cell = sum0_cell [OF ne eval_run_shape [OF assms(2)]]
  note lst = eval_run_last [OF assms(1), of c ee video w ob]
  note frm = eval_run_frame [OF assms(3,4,5,6,7), of ob n video w]
  have res: "\<forall>k. 1 \<le> k \<and> \<not> video \<and> model_eval c (e_world ?r) = e_world ?r \<longrightarrow>
         (\<exists>tot2 tot12 ob2 w2 tr2 tr12.
             evaluate_model c ee (e_obs ?r) k False (e_world ?r) = Inr ((tot2, ob2), w2, tr2)
           \<and> evaluate_model c ee ob (n + k) False w = Inr ((tot12, ob2), w2, tr12)
           \<and> (\<forall>i < N. tot12 ! i = sum0 (e_total_reward ?r) ! i + tot2 ! i))"
  proof (intro allI impI)
    fix k :: int
    assume a: "1 \<le> k \<and> \<not> video \<and> model_eval c (e_world ?r) = e_world ?r"
    then have v: "video = False" and k: "1 \<le> k"
      and m: "model_eval c (e_world ?r) = e_world ?r"
      by blast+
    note R = ret [unfolded v] and m' = m [unfolded v]
    from evaluate_model_resume [OF assms(1) k assms(2) R m']
    show "\<exists>tot2 tot12 ob2 w2 tr2 tr12.
             evaluate_model c ee (e_obs ?r) k False (e_world ?r) = Inr ((tot2, ob2), w2, tr2)
           \<and> evaluate_model c ee ob (n + k) False w = Inr ((tot12, ob2), w2, tr12)
           \<and> (\<forall>i < N. tot12 ! i = sum0 (e_total_reward ?r) ! i + tot2 ! i)"
      unfolding v .
  qed
  show ?thesis
    apply (rule exI [of _ "sum0 (e_total_reward ?r)"])
    apply (rule exI [of _ "e_obs ?r"])
    apply (rule exI [of _ "e_world ?r"])
    apply (rule exI [of _ "e_trace ?r"])
    apply (intro conjI)
          apply (rule ret)
         apply (rule len)
        apply (rule cell [THEN conjunct1])
       apply (rule cell [THEN conjunct2])
      apply (rule lst)
     apply (rule frm)
    apply (rule res)
    done
qed


lemma demo_evaluation:
  "\<exists>tr. evaluate_model demo_collab demo_env 0 4 False 0 = Inr (([4, 4], 4), 0, tr)"
  by (simp add: evaluate_model_def eval_run_def eval_step_def torch_stack_def sum0_def
        tensor_add_def demo_collab_def demo_env_def Let_def eval_nat_numeral)

theorem evaluate_model_total_and_resume_witness:
  "\<exists>tot ob' w' tr. evaluate_model demo_collab demo_env 0 4 False 0 = Inr ((tot, ob'), w', tr)
     \<and> length tot = 2 \<and> w' = 0 \<and> tot = [4, 4] \<and> ob' = 4"
proof -
  have n: "(1::int) \<le> 4" by simp
  have sh: "\<forall>a w. length (fst (snd (fst (env_step demo_env a w)))) = 2"
    by (simp add: demo_env_def)
  have f1: "\<forall>w. (\<lambda>w. w) (model_eval demo_collab w) = (\<lambda>w. w) w"
    and f2: "\<forall>ob w. (\<lambda>w. w) (snd (model_act demo_collab ob w)) = (\<lambda>w. w) w"
    and f3: "\<forall>a w. (\<lambda>w. w) (snd (env_step demo_env a w)) = (\<lambda>w. w) w"
    and f4: "\<forall>w. (\<lambda>w. w) (snd (env_render demo_env w)) = (\<lambda>w. w) w"
    and f5: "\<forall>fs w. (\<lambda>w. w) (save_video demo_collab fs w) = (\<lambda>w. w) w"
    by (simp_all add: demo_collab_def demo_env_def)
  from evaluate_model_total_and_resume [OF n sh f1 f2 f3 f4 f5, of 0 False 0]
  obtain tot ob' w' tr where e: "evaluate_model demo_collab demo_env 0 4 False 0 = Inr ((tot, ob'), w', tr)"
    and l: "length tot = 2" and w: "w' = 0"
    by auto
  from demo_evaluation obtain tr0
    where "evaluate_model demo_collab demo_env 0 4 False 0 = Inr (([4, 4], 4), 0, tr0)" ..
  with e l w show ?thesis by simp
qed

section \<open>Properties of the policy update\<close>

text \<open>
  Every minibatch makes the same six calls in the same order: the forward pass, the
  loss, its backward pass, the clipping of the gradient norm, one optimizer step, and
  the reset of the gradients. What the clipping does to the norm is the library's own
  floating-point computation and is not part of this model.
\<close>

lemma minibatch_update_order:
  "\<exists>policy val loss.
      trace (minibatch_update c batch s)
        = trace s @ [Forward (b_obs c batch), Criterion batch policy val, Backward loss,
                     ClipGradNorm, OptimizerStep, ZeroGrad]"
  by (simp add: minibatch_update_def Let_def case_prod_beta)

section \<open>The default evaluation environment\<close>

text \<open>
  Line 120 calls \<open>eval_env.reset()\<close> whatever \<open>get_test_error\<close> is, so a call that
  leaves \<open>eval_env\<close> at its default \<open>None\<close> raises before the loop is reached. The
  properties of the loop above are those of calls that pass an evaluation environment.
\<close>

lemma train_model_without_eval_env:
  "train_model c e None h w = Some (Inl AttributeError)"
  by (simp add: train_model_def train_init_def Let_def case_prod_beta)

end
